theory Spec2Isabelle
  imports Complex_Main
begin

section \<open>Configuration and errors\<close>

text \<open>
  The constructor arguments of \<open>Demucs.__init__\<close> (demucs.py, lines 16-30). Python
  integers are \<open>int\<close>; the two float arguments \<open>growth\<close> and \<open>rescale\<close> are read as
  real numbers. \<open>normalize_input\<close> is the argument \<open>normalize\<close>.
\<close>

record config =
  hidden_dim :: int
  growth :: real
  depth :: int
  causal :: bool
  resample :: int
  rescale :: real
  stride_conv :: int
  kernel_conv :: int
  stride_glu :: int
  kernel_glu :: int
  original :: bool
  use_bias :: bool
  normalize_input :: bool

text \<open>The default values of the constructor arguments.\<close>

definition default_config :: config where
  "default_config =
     \<lparr> hidden_dim = 64, growth = 1, depth = 5, causal = True, resample = 4,
       rescale = 1 / 10, stride_conv = 4, kernel_conv = 8, stride_glu = 1,
       kernel_glu = 1, original = True, use_bias = True, normalize_input = True \<rparr>"

text \<open>
  Every way the code can raise: the \<open>assert\<close> statements, a division by zero in the
  length arithmetic, the errors of the tensor library on arguments and shapes it refuses
  (all of them \<open>RuntimeError\<close> here), a pop from an empty skip list, and the read of an
  attribute that \<open>__init__\<close> has not assigned yet.
\<close>

datatype error = AssertionError | ZeroDivisionError | RuntimeError | IndexError | AttributeError

section \<open>valid\_length\<close>

text \<open>
  \<open>math.ceil(a / b)\<close> on Python integers: \<open>a / b\<close> raises on \<open>b = 0\<close> and is otherwise the
  true quotient rounded to the nearest double. \<open>ceil_div\<close> is the ceiling of the exact
  quotient. The two agree whenever \<open>\<bar>a\<bar> < 2 ^ 53\<close> and \<open>\<bar>b\<bar> < 2 ^ 53\<close>: a quotient of such
  integers that is not an integer is at least \<open>1 / \<bar>b\<bar>\<close> away from every integer, and
  rounding moves it by less than that. For larger numbers the double can round onto an
  integer, overflow or underflow, and the source then returns another length or raises
  \<open>OverflowError\<close>, which \<open>ceil_div\<close> does not follow. The predicate \<open>double_exact\<close> below
  names the calls of \<open>valid_length\<close> that stay within the range, and the general statements
  about \<open>valid_length\<close> are made for these calls only.
\<close>

definition ceil_div :: "int \<Rightarrow> int \<Rightarrow> error + int" where
  "ceil_div a b = (if b = 0 then Inl ZeroDivisionError else Inr (- ((- a) div b)))"

text \<open>
  One pass of the first loop of \<open>valid_length\<close> (lines 227-231): the strided
  convolution, the clamp, the gated convolution, the clamp.
\<close>

definition encoder_length :: "config \<Rightarrow> int \<Rightarrow> error + int" where
  "encoder_length cfg len =
     (case ceil_div (len - kernel_conv cfg) (stride_conv cfg) of
        Inl e \<Rightarrow> Inl e
      | Inr q \<Rightarrow>
          (let len1 = max (q + 1) 1 in
           case ceil_div (len1 - kernel_glu cfg) (stride_glu cfg) of
             Inl e \<Rightarrow> Inl e
           | Inr q' \<Rightarrow> Inr (max (q' + 1) 1)))"

text \<open>\<open>for idx in range(self.depth)\<close> over the encoder step; \<open>n\<close> counts the passes left.\<close>

fun encoder_lengths :: "config \<Rightarrow> nat \<Rightarrow> int \<Rightarrow> error + int" where
  "encoder_lengths cfg 0 len = Inr len"
| "encoder_lengths cfg (Suc n) len =
     (case encoder_length cfg len of
        Inl e \<Rightarrow> Inl e
      | Inr len' \<Rightarrow> encoder_lengths cfg n len')"

text \<open>One pass of the second loop (line 236), and the loop.\<close>

definition decoder_length :: "config \<Rightarrow> int \<Rightarrow> int" where
  "decoder_length cfg len = (len - 1) * stride_conv cfg + kernel_conv cfg"

fun decoder_lengths :: "config \<Rightarrow> nat \<Rightarrow> int \<Rightarrow> int" where
  "decoder_lengths cfg 0 len = len"
| "decoder_lengths cfg (Suc n) len = decoder_lengths cfg n (decoder_length cfg len)"

text \<open>
  \<open>Demucs.valid_length\<close> (lines 212-240). \<open>range(self.depth)\<close> is empty for a
  non-positive depth, hence \<open>nat (depth cfg)\<close> passes. \<open>length * self.resample\<close> is an
  integer already, so the first \<open>math.ceil\<close> leaves it as it is.
\<close>

definition valid_length :: "config \<Rightarrow> int \<Rightarrow> error + int" where
  "valid_length cfg len =
     (case encoder_lengths cfg (nat (depth cfg)) (len * resample cfg) of
        Inl e \<Rightarrow> Inl e
      | Inr len1 \<Rightarrow>
          ceil_div (decoder_lengths cfg (nat (depth cfg)) len1) (resample cfg))"

text \<open>
  The dividends of the calls of \<open>math.ceil(a / b)\<close> that \<open>valid_length\<close> makes, in the order
  of the calls: two for every encoder pass that is reached, and the last one of line 238.
  (The first \<open>math.ceil\<close>, of line 225, is applied to an integer.)
\<close>

fun encoder_dividends :: "config \<Rightarrow> nat \<Rightarrow> int \<Rightarrow> int list" where
  "encoder_dividends cfg 0 len = []"
| "encoder_dividends cfg (Suc n) len =
     (len - kernel_conv cfg) #
     (case ceil_div (len - kernel_conv cfg) (stride_conv cfg) of
        Inl e \<Rightarrow> []
      | Inr q \<Rightarrow>
          (max (q + 1) 1 - kernel_glu cfg) #
          (case encoder_length cfg len of
             Inl e \<Rightarrow> []
           | Inr len' \<Rightarrow> encoder_dividends cfg n len'))"

definition dividends :: "config \<Rightarrow> int \<Rightarrow> int list" where
  "dividends cfg len =
     encoder_dividends cfg (nat (depth cfg)) (len * resample cfg) @
     (case encoder_lengths cfg (nat (depth cfg)) (len * resample cfg) of
        Inl e \<Rightarrow> []
      | Inr len1 \<Rightarrow> [decoder_lengths cfg (nat (depth cfg)) len1])"

text \<open>
  The calls of \<open>valid_length\<close> in which every divisor and every dividend is below \<open>2 ^ 53\<close>
  in absolute value: there the source computes what \<open>valid_length\<close> does.
\<close>

definition double_exact :: "config \<Rightarrow> int \<Rightarrow> bool" where
  "double_exact cfg len \<longleftrightarrow>
     \<bar>stride_conv cfg\<bar> < 2 ^ 53 \<and> \<bar>stride_glu cfg\<bar> < 2 ^ 53 \<and> \<bar>resample cfg\<bar> < 2 ^ 53 \<and>
     (\<forall>a\<in>set (dividends cfg len). \<bar>a\<bar> < 2 ^ 53)"


section \<open>Tensors\<close>

text \<open>
  A tensor of three axes is its shape and its entries. The entries are real numbers:
  rounding, infinities and \<open>nan\<close> of the floating-point tensors are not modelled. Only the
  entries inside the shape mean anything, and every operation below reads only those.
  A signal has the axes (batch, channel, time); the recurrent layer reads
  (time, batch, feature).
\<close>

type_synonym tensor1 = "nat \<Rightarrow> real"
type_synonym tensor2 = "nat \<Rightarrow> nat \<Rightarrow> real"
type_synonym tensor3 = "nat \<Rightarrow> nat \<Rightarrow> nat \<Rightarrow> real"

record tensor =
  d0 :: nat
  d1 :: nat
  d2 :: nat
  entry :: tensor3

text \<open>
  What \<open>forward\<close> can be given: a tensor of one axis (refused by the \<open>assert\<close>), of two
  axes (batch, time), or of three. Tensors of four and more axes are outside this type.
\<close>

datatype input = Axes1 nat tensor1 | Axes2 nat nat tensor2 | Axes3 tensor

text \<open>\<open>x.unsqueeze(1)\<close> on a tensor of two axes.\<close>

definition unsqueeze1 :: "nat \<Rightarrow> nat \<Rightarrow> tensor2 \<Rightarrow> tensor" where
  "unsqueeze1 b t f = \<lparr> d0 = b, d1 = 1, d2 = t, entry = (\<lambda>n c i. f n i) \<rparr>"

text \<open>\<open>x.mean(dim=1, keepdim=True)\<close>.\<close>

definition mean_dim1 :: "tensor \<Rightarrow> tensor" where
  "mean_dim1 x =
     \<lparr> d0 = d0 x, d1 = 1, d2 = d2 x,
       entry = (\<lambda>n c i. (\<Sum>k<d1 x. entry x n k i) / real (d1 x)) \<rparr>"

text \<open>
  \<open>x.std(dim=-1, keepdim=True)\<close>: the unbiased estimate, dividing by the number of
  entries minus one. (On a single entry the library returns \<open>nan\<close>; here the quotient by
  zero is \<open>0\<close>.)
\<close>

definition std_dim2 :: "tensor \<Rightarrow> tensor" where
  "std_dim2 x =
     \<lparr> d0 = d0 x, d1 = d1 x, d2 = 1,
       entry = (\<lambda>n c i.
          let mean = (\<Sum>k<d2 x. entry x n c k) / real (d2 x)
          in sqrt ((\<Sum>k<d2 x. (entry x n c k - mean)\<^sup>2) / (real (d2 x) - 1))) \<rparr>"

text \<open>
  Elementwise operations with broadcasting: on each axis the two sizes are equal or one
  of them is \<open>1\<close>; the tensor of size \<open>1\<close> is read at index \<open>0\<close> there.
\<close>

definition broadcast_dim :: "nat \<Rightarrow> nat \<Rightarrow> nat option" where
  "broadcast_dim a b = (if a = b then Some a else if a = 1 then Some b
                        else if b = 1 then Some a else None)"

definition pick :: "nat \<Rightarrow> nat \<Rightarrow> nat" where
  "pick n i = (if n = 1 then 0 else i)"

definition broadcast :: "(real \<Rightarrow> real \<Rightarrow> real) \<Rightarrow> tensor \<Rightarrow> tensor \<Rightarrow> error + tensor" where
  "broadcast f x y =
     (case (broadcast_dim (d0 x) (d0 y), broadcast_dim (d1 x) (d1 y),
            broadcast_dim (d2 x) (d2 y)) of
        (Some a, Some b, Some c) \<Rightarrow>
          Inr \<lparr> d0 = a, d1 = b, d2 = c,
                entry = (\<lambda>n k i. f (entry x (pick (d0 x) n) (pick (d1 x) k) (pick (d2 x) i))
                                 (entry y (pick (d0 y) n) (pick (d1 y) k) (pick (d2 y) i))) \<rparr>
      | _ \<Rightarrow> Inl RuntimeError)"

text \<open>
  \<open>F.pad(x, (0, p))\<close>: \<open>p\<close> zeros after the last time step; a negative \<open>p\<close> removes
  \<open>- p\<close> steps from the end instead, and fails when there are fewer.
\<close>

definition pad_end :: "tensor \<Rightarrow> int \<Rightarrow> error + tensor" where
  "pad_end x p =
     (if int (d2 x) + p < 0 then Inl RuntimeError
      else Inr \<lparr> d0 = d0 x, d1 = d1 x, d2 = nat (int (d2 x) + p),
                 entry = (\<lambda>n c i. if i < d2 x then entry x n c i else 0) \<rparr>)"

text \<open>\<open>x[..., :n]\<close> for a non-negative \<open>n\<close>.\<close>

definition take_steps :: "nat \<Rightarrow> tensor \<Rightarrow> tensor" where
  "take_steps n x = x\<lparr> d2 := min n (d2 x) \<rparr>"

text \<open>\<open>x.permute(2, 0, 1)\<close> and \<open>x.permute(1, 2, 0)\<close>.\<close>

definition permute201 :: "tensor \<Rightarrow> tensor" where
  "permute201 x = \<lparr> d0 = d2 x, d1 = d0 x, d2 = d1 x, entry = (\<lambda>i n c. entry x n c i) \<rparr>"

definition permute120 :: "tensor \<Rightarrow> tensor" where
  "permute120 x = \<lparr> d0 = d1 x, d1 = d2 x, d2 = d0 x, entry = (\<lambda>n c i. entry x i n c) \<rparr>"


section \<open>Modules of the tensor library\<close>

text \<open>
  The parameters of \<open>nn.LSTM\<close>: \<open>weight_ih_l\<close>, \<open>weight_hh_l\<close>, \<open>bias_ih_l\<close> and
  \<open>bias_hh_l\<close>, for each layer and each direction (\<open>True\<close> is the reverse direction).
\<close>

record lstm_weights =
  weight_ih :: "nat \<Rightarrow> bool \<Rightarrow> tensor2"
  weight_hh :: "nat \<Rightarrow> bool \<Rightarrow> tensor2"
  bias_ih :: "nat \<Rightarrow> bool \<Rightarrow> tensor1"
  bias_hh :: "nat \<Rightarrow> bool \<Rightarrow> tensor1"

text \<open>
  The modules the model is built from, with the constructor arguments the code passes:
  \<open>Conv1d in_channels out_channels kernel_size stride padding weight bias\<close>, with a weight
  of shape (out, in, kernel);
  \<open>ConvTranspose1d in_channels out_channels kernel_size stride weight bias\<close>, with a weight
  of shape (in, out, kernel);
  \<open>LSTM input_size hidden_size num_layers bidirectional bias weights\<close>;
  \<open>Linear in_features out_features weight bias\<close>.
  An \<open>nn.Sequential\<close> is the list of its modules.
\<close>

datatype module =
    Conv1d int int int int int tensor3 "tensor1 option"
  | ConvTranspose1d int int int int tensor3 "tensor1 option"
  | ReLU
  | Identity
  | GLU
  | LSTM int int nat bool bool lstm_weights
  | Linear int int tensor2 "tensor1 option"

definition sigmoid :: "real \<Rightarrow> real" where
  "sigmoid v = 1 / (1 + exp (- v))"

definition bias_at :: "tensor1 option \<Rightarrow> nat \<Rightarrow> real" where
  "bias_at b k = (case b of None \<Rightarrow> 0 | Some v \<Rightarrow> v k)"

text \<open>
  The input of a convolution with \<open>p\<close> zeros of padding on both sides, read at position
  \<open>i\<close> of the padded signal.
\<close>

definition padded :: "tensor \<Rightarrow> nat \<Rightarrow> nat \<Rightarrow> nat \<Rightarrow> nat \<Rightarrow> real" where
  "padded x p n c i = (if p \<le> i \<and> i < p + d2 x then entry x n c (i - p) else 0)"

text \<open>
  \<open>nn.Conv1d\<close> on (batch, channel, time): output step \<open>t\<close> reads the window that starts
  at \<open>t * stride\<close>; the output has \<open>floor((L + 2 * padding - kernel) / stride) + 1\<close>
  steps. The library refuses an input with the wrong number of channels and a kernel
  longer than the padded input.
\<close>

definition conv1d ::
  "int \<Rightarrow> int \<Rightarrow> int \<Rightarrow> int \<Rightarrow> int \<Rightarrow> tensor3 \<Rightarrow> tensor1 option \<Rightarrow> tensor \<Rightarrow> error + tensor" where
  "conv1d cin cout k s p w b x =
     (if int (d1 x) \<noteq> cin \<or> k < 1 \<or> s < 1 \<or> p < 0 \<or> int (d2 x) + 2 * p < k
      then Inl RuntimeError
      else Inr \<lparr> d0 = d0 x, d1 = nat cout,
                 d2 = nat ((int (d2 x) + 2 * p - k) div s + 1),
                 entry = (\<lambda>n out t. bias_at b out +
                    (\<Sum>c<d1 x. \<Sum>j<nat k. w out c j * padded x (nat p) n c (t * nat s + j))) \<rparr>)"

text \<open>
  \<open>nn.ConvTranspose1d\<close> without padding: input step \<open>t\<close> adds its kernel to the output
  steps from \<open>t * stride\<close> on; the output has \<open>(L - 1) * stride + kernel\<close> steps.
\<close>

definition conv_transpose1d ::
  "int \<Rightarrow> int \<Rightarrow> int \<Rightarrow> int \<Rightarrow> tensor3 \<Rightarrow> tensor1 option \<Rightarrow> tensor \<Rightarrow> error + tensor" where
  "conv_transpose1d cin cout k s w b x =
     (if int (d1 x) \<noteq> cin \<or> k < 1 \<or> s < 1 \<or> (int (d2 x) - 1) * s + k < 0
      then Inl RuntimeError
      else Inr \<lparr> d0 = d0 x, d1 = nat cout,
                 d2 = nat ((int (d2 x) - 1) * s + k),
                 entry = (\<lambda>n out i. bias_at b out +
                    (\<Sum>c<d1 x. \<Sum>t<d2 x.
                       if t * nat s \<le> i \<and> i < t * nat s + nat k
                       then entry x n c t * w c out (i - t * nat s) else 0)) \<rparr>)"

text \<open>\<open>nn.ReLU\<close> clips every entry to the non-negative numbers.\<close>

definition relu :: "tensor \<Rightarrow> tensor" where
  "relu x = x\<lparr> entry := (\<lambda>n c i. max 0 (entry x n c i)) \<rparr>"

text \<open>
  \<open>nn.GLU(dim=1)\<close> splits the channels in two halves and multiplies the first by the
  sigmoid of the second; it refuses an odd number of channels.
\<close>

definition glu :: "tensor \<Rightarrow> error + tensor" where
  "glu x =
     (if odd (d1 x) then Inl RuntimeError
      else Inr \<lparr> d0 = d0 x, d1 = d1 x div 2, d2 = d2 x,
                 entry = (\<lambda>n c i. entry x n c i * sigmoid (entry x n (c + d1 x div 2) i)) \<rparr>)"

text \<open>
  One step of an LSTM layer. Row \<open>r\<close> of the stacked gates is computed from the input
  vector \<open>u\<close> (of size \<open>nin\<close>) and the hidden state \<open>h\<close> (of size \<open>hid\<close>); the rows are
  stacked in the order input gate, forget gate, cell gate, output gate.
\<close>

definition lstm_gate ::
  "bool \<Rightarrow> lstm_weights \<Rightarrow> nat \<Rightarrow> bool \<Rightarrow> nat \<Rightarrow> nat \<Rightarrow> tensor1 \<Rightarrow> tensor1 \<Rightarrow> nat \<Rightarrow> real" where
  "lstm_gate bias w l back nin hid u h r =
     (\<Sum>j<nin. weight_ih w l back r j * u j) + (\<Sum>j<hid. weight_hh w l back r j * h j) +
     (if bias then bias_ih w l back r + bias_hh w l back r else 0)"

definition lstm_cell ::
  "bool \<Rightarrow> lstm_weights \<Rightarrow> nat \<Rightarrow> bool \<Rightarrow> nat \<Rightarrow> nat \<Rightarrow> tensor1 \<Rightarrow> tensor1 \<times> tensor1
     \<Rightarrow> tensor1 \<times> tensor1" where
  "lstm_cell bias w l back nin hid u hc =
     (let g = lstm_gate bias w l back nin hid u (fst hc);
          c' = (\<lambda>j. sigmoid (g (hid + j)) * snd hc j + sigmoid (g j) * tanh (g (2 * hid + j)));
          h' = (\<lambda>j. sigmoid (g (3 * hid + j)) * tanh (c' j))
      in (h', c'))"

text \<open>
  The state after the first \<open>t\<close> steps of a sequence, from the zero state (the code
  passes no initial state).
\<close>

fun lstm_run :: "(tensor1 \<Rightarrow> tensor1 \<times> tensor1 \<Rightarrow> tensor1 \<times> tensor1) \<Rightarrow> (nat \<Rightarrow> tensor1) \<Rightarrow> nat
    \<Rightarrow> tensor1 \<times> tensor1" where
  "lstm_run cell xs 0 = ((\<lambda>j. 0), (\<lambda>j. 0))"
| "lstm_run cell xs (Suc t) = cell (xs t) (lstm_run cell xs t)"

text \<open>
  The output of one layer on a sequence of \<open>len\<close> steps: the hidden state of the forward
  direction and, for a bidirectional layer, after it the hidden state of the reverse
  direction, which runs over the sequence from its last step.
\<close>

definition lstm_layer ::
  "bool \<Rightarrow> lstm_weights \<Rightarrow> bool \<Rightarrow> nat \<Rightarrow> nat \<Rightarrow> nat \<Rightarrow> nat \<Rightarrow> (nat \<Rightarrow> tensor1) \<Rightarrow> nat \<Rightarrow> tensor1" where
  "lstm_layer bias w bidir l nin hid len xs t j =
     (if \<not> bidir \<or> j < hid
      then fst (lstm_run (lstm_cell bias w l False nin hid) xs (Suc t)) j
      else fst (lstm_run (lstm_cell bias w l True nin hid) (\<lambda>i. xs (len - 1 - i))
                 (Suc (len - 1 - t))) (j - hid))"

text \<open>
  The first \<open>n\<close> layers: layer \<open>0\<close> reads the input, every later layer the output of the
  layer below, of size \<open>hid\<close> or \<open>2 * hid\<close>.
\<close>

fun lstm_layers ::
  "bool \<Rightarrow> lstm_weights \<Rightarrow> bool \<Rightarrow> nat \<Rightarrow> nat \<Rightarrow> nat \<Rightarrow> nat \<Rightarrow> (nat \<Rightarrow> tensor1) \<Rightarrow> nat \<Rightarrow> tensor1" where
  "lstm_layers bias w bidir nin hid len 0 xs = xs"
| "lstm_layers bias w bidir nin hid len (Suc l) xs =
     lstm_layer bias w bidir l (if l = 0 then nin else hid * (if bidir then 2 else 1)) hid len
       (lstm_layers bias w bidir nin hid len l xs)"

text \<open>
  \<open>nn.LSTM\<close> on (time, batch, feature); only the per-step output is returned, as the code
  drops the final states.
\<close>

definition lstm :: "int \<Rightarrow> int \<Rightarrow> nat \<Rightarrow> bool \<Rightarrow> bool \<Rightarrow> lstm_weights \<Rightarrow> tensor \<Rightarrow> error + tensor" where
  "lstm isz hsz nl bidir bias w x =
     (if int (d2 x) \<noteq> isz \<or> hsz < 0 then Inl RuntimeError
      else Inr \<lparr> d0 = d0 x, d1 = d1 x, d2 = nat hsz * (if bidir then 2 else 1),
                 entry = (\<lambda>t n j. lstm_layers bias w bidir (d2 x) (nat hsz) (d0 x) nl
                                     (\<lambda>i k. entry x i n k) t j) \<rparr>)"

text \<open>\<open>nn.Linear\<close> on the last axis.\<close>

definition linear_map :: "int \<Rightarrow> int \<Rightarrow> tensor2 \<Rightarrow> tensor1 option \<Rightarrow> tensor \<Rightarrow> error + tensor" where
  "linear_map fin fout w b x =
     (if int (d2 x) \<noteq> fin \<or> fout < 0 then Inl RuntimeError
      else Inr \<lparr> d0 = d0 x, d1 = d1 x, d2 = nat fout,
                 entry = (\<lambda>i n out. (\<Sum>k<d2 x. w out k * entry x i n k) + bias_at b out) \<rparr>)"

text \<open>Calling a module, and an \<open>nn.Sequential\<close>, which calls its modules in order.\<close>

fun apply_module :: "module \<Rightarrow> tensor \<Rightarrow> error + tensor" where
  "apply_module (Conv1d cin cout k s p w b) x = conv1d cin cout k s p w b x"
| "apply_module (ConvTranspose1d cin cout k s w b) x = conv_transpose1d cin cout k s w b x"
| "apply_module ReLU x = Inr (relu x)"
| "apply_module Identity x = Inr x"
| "apply_module GLU x = glu x"
| "apply_module (LSTM isz hsz nl bidir bias w) x = lstm isz hsz nl bidir bias w x"
| "apply_module (Linear fin fout w b) x = linear_map fin fout w b x"

fun apply_sequential :: "module list \<Rightarrow> tensor \<Rightarrow> error + tensor" where
  "apply_sequential [] x = Inr x"
| "apply_sequential (m # ms) x =
     (case apply_module m x of Inl e \<Rightarrow> Inl e | Inr y \<Rightarrow> apply_sequential ms y)"


section \<open>Construction\<close>

text \<open>
  \<open>int(v)\<close> on a float truncates towards zero; \<open>2 ** e\<close> is an integer for \<open>e \<ge> 0\<close>
  and the float \<open>1 / 2 ** (- e)\<close> below. The products of \<open>hidden_dim\<close>, \<open>growth\<close> and
  the power of two are taken exactly, where the source multiplies doubles and rounds
  after every product. The channel numbers are those of the source when the products are
  doubles themselves, as for the default arguments and for every \<open>growth\<close> that is a small
  multiple of a power of two; for other arguments they can differ by one
  (\<open>hidden_dim = 100\<close>, \<open>growth = 0.29\<close>: \<open>28\<close> in the source and \<open>29\<close> here). The statements
  below that are made for every configuration hold for whatever numbers the products
  give, and the concrete ones use the default \<open>growth\<close>.
\<close>

definition py_int :: "real \<Rightarrow> int" where
  "py_int v = (if 0 \<le> v then \<lfloor>v\<rfloor> else \<lceil>v\<rceil>)"

definition pow2 :: "int \<Rightarrow> real" where
  "pow2 e = (if 0 \<le> e then 2 ^ nat e else 1 / 2 ^ nat (- e))"

text \<open>
  The constructors of the tensor library draw the initial parameters at random. The
  draw is a parameter of the model: the values given to each convolution (named by its
  place and level), to the LSTM and to the linear projection.
\<close>

datatype site = EncoderConv int | EncoderGLU int | DecoderGLU int | DecoderConv int

record initial =
  conv_weight :: "site \<Rightarrow> tensor3"
  conv_bias :: "site \<Rightarrow> tensor1"
  lstm_initial :: lstm_weights
  linear_weight :: tensor2
  linear_bias :: tensor1

text \<open>
  Whether the library's constructor accepts the arguments it is called with is not
  decided by this repository; it is the parameter \<open>accepts\<close>. \<open>nn.ReLU\<close>, \<open>nn.Identity\<close>
  and \<open>nn.GLU\<close> take no size and always construct.
\<close>

definition new :: "(module \<Rightarrow> bool) \<Rightarrow> module \<Rightarrow> error + module" where
  "new accepts m = (if accepts m then Inr m else Inl RuntimeError)"

definition opt_bias :: "bool \<Rightarrow> tensor1 \<Rightarrow> tensor1 option" where
  "opt_bias use b = (if use then Some b else None)"

text \<open>
  \<open>Demucs._build_encoder_block\<close> (lines 141-172); the arguments taken unchanged from the
  constructor are read from the configuration.
\<close>

definition build_encoder_block ::
  "(module \<Rightarrow> bool) \<Rightarrow> initial \<Rightarrow> config \<Rightarrow> int \<Rightarrow> bool \<Rightarrow> error + module list" where
  "build_encoder_block accepts init cfg level use_relu =
     (let in_channels = (if level = 0 then 1
            else py_int (real_of_int (hidden_dim cfg) * growth cfg * pow2 (level - 1)));
          out_channels = py_int (real_of_int (hidden_dim cfg) * growth cfg * pow2 level)
      in case new accepts (Conv1d in_channels out_channels (kernel_conv cfg) (stride_conv cfg) 0
                 (conv_weight init (EncoderConv level))
                 (opt_bias (use_bias cfg) (conv_bias init (EncoderConv level)))) of
           Inl e \<Rightarrow> Inl e
         | Inr conv \<Rightarrow>
             (let relu = (if use_relu then ReLU else Identity)
              in case new accepts (Conv1d out_channels (2 * out_channels) (kernel_glu cfg)
                         (stride_glu cfg) (kernel_glu cfg div 2)
                         (conv_weight init (EncoderGLU level))
                         (opt_bias (use_bias cfg) (conv_bias init (EncoderGLU level)))) of
                   Inl e \<Rightarrow> Inl e
                 | Inr conv_glu \<Rightarrow> Inr [conv, relu, conv_glu, GLU]))"

text \<open>\<open>Demucs._build_decoder_block\<close> (lines 175-206).\<close>

definition build_decoder_block ::
  "(module \<Rightarrow> bool) \<Rightarrow> initial \<Rightarrow> config \<Rightarrow> int \<Rightarrow> bool \<Rightarrow> error + module list" where
  "build_decoder_block accepts init cfg level use_relu =
     (let in_channels = py_int (real_of_int (hidden_dim cfg) * growth cfg * pow2 level);
          out_channels = (if level = 0 then 1
            else py_int (real_of_int (hidden_dim cfg) * growth cfg * pow2 (level - 1)))
      in case new accepts (Conv1d in_channels (2 * in_channels) (kernel_glu cfg)
                 (stride_glu cfg) (kernel_glu cfg div 2)
                 (conv_weight init (DecoderGLU level))
                 (opt_bias (use_bias cfg) (conv_bias init (DecoderGLU level)))) of
           Inl e \<Rightarrow> Inl e
         | Inr deconv_glu \<Rightarrow>
             (case new accepts (ConvTranspose1d in_channels out_channels (kernel_conv cfg)
                        (stride_conv cfg) (conv_weight init (DecoderConv level))
                        (opt_bias (use_bias cfg) (conv_bias init (DecoderConv level)))) of
                Inl e \<Rightarrow> Inl e
              | Inr deconv \<Rightarrow>
                  (let relu = (if use_relu then ReLU else Identity)
                   in Inr [deconv_glu, GLU, deconv, relu])))"

text \<open>
  The loop of lines 71-97 over the values \<open>i\<close> of \<open>range(depth)\<close>: encoder block \<open>i\<close>
  with \<open>use_relu = original or i\<close>, decoder block \<open>depth - i - 1\<close> with
  \<open>use_relu = depth - i - 1 > 0\<close>.
\<close>

fun build_blocks ::
  "(module \<Rightarrow> bool) \<Rightarrow> initial \<Rightarrow> config \<Rightarrow> int list
     \<Rightarrow> error + (module list list \<times> module list list)" where
  "build_blocks accepts init cfg [] = Inr ([], [])"
| "build_blocks accepts init cfg (i # rest) =
     (case build_encoder_block accepts init cfg i (original cfg \<or> i \<noteq> 0) of
        Inl e \<Rightarrow> Inl e
      | Inr eb \<Rightarrow>
          (case build_decoder_block accepts init cfg (depth cfg - i - 1)
                  (depth cfg - i - 1 > 0) of
             Inl e \<Rightarrow> Inl e
           | Inr db \<Rightarrow>
               (case build_blocks accepts init cfg rest of
                  Inl e \<Rightarrow> Inl e
                | Inr (es, ds) \<Rightarrow> Inr (eb # es, db # ds))))"

text \<open>
  The model object. \<open>hparams\<close> holds the constructor arguments; the code keeps only the
  ones it reads later (\<open>original\<close>, \<open>causal\<close>, \<open>normalize\<close>, \<open>resample\<close>, \<open>depth\<close> and the
  four kernel and stride sizes), and nothing below reads another one from the object.
  \<open>rnn\<close> and \<open>linear_proj\<close> (the attribute \<open>self.linear\<close>) are \<open>None\<close> until
  \<open>__init__\<close> assigns them.
\<close>

record demucs =
  hparams :: config
  encoder :: "module list list"
  decoder :: "module list list"
  rnn :: "module option"
  linear_proj :: "module option"

text \<open>
  \<open>weight.std()\<close> over all entries of a weight of shape (a, b, c): the unbiased
  estimate again.
\<close>

definition tensor_std :: "nat \<Rightarrow> nat \<Rightarrow> nat \<Rightarrow> tensor3 \<Rightarrow> real" where
  "tensor_std a b c w =
     (let n = real (a * b * c);
          mean = (\<Sum>i<a. \<Sum>j<b. \<Sum>k<c. w i j k) / n
      in sqrt ((\<Sum>i<a. \<Sum>j<b. \<Sum>k<c. (w i j k - mean)\<^sup>2) / (n - 1)))"

text \<open>
  The body of the loop of \<open>_rescale_conv\<close> (lines 132-138) on one module: a module that
  is neither \<open>nn.Conv1d\<close> nor \<open>nn.ConvTranspose1d\<close> is left as it is.
\<close>

fun rescale_module :: "real \<Rightarrow> module \<Rightarrow> module" where
  "rescale_module reference (Conv1d cin cout k s p w b) =
     (let std = tensor_std (nat cout) (nat cin) (nat k) w;
          scale = sqrt (std / reference)
      in Conv1d cin cout k s p (\<lambda>i j l. w i j l / scale)
           (map_option (\<lambda>v i. v i / scale) b))"
| "rescale_module reference (ConvTranspose1d cin cout k s w b) =
     (let std = tensor_std (nat cin) (nat cout) (nat k) w;
          scale = sqrt (std / reference)
      in ConvTranspose1d cin cout k s (\<lambda>i j l. w i j l / scale)
           (map_option (\<lambda>v i. v i / scale) b))"
| "rescale_module reference m = m"

text \<open>
  \<open>Demucs._rescale_conv\<close>: \<open>self.modules()\<close> visits every module registered on the
  object, each one once; the containers are no convolutions.
\<close>

definition rescale_conv :: "real \<Rightarrow> demucs \<Rightarrow> demucs" where
  "rescale_conv reference obj =
     obj\<lparr> encoder := map (map (rescale_module reference)) (encoder obj),
          decoder := map (map (rescale_module reference)) (decoder obj),
          rnn := map_option (rescale_module reference) (rnn obj),
          linear_proj := map_option (rescale_module reference) (linear_proj obj) \<rparr>"

text \<open>The size of the bottleneck (line 107).\<close>

definition encoder_channels :: "config \<Rightarrow> int" where
  "encoder_channels cfg =
     py_int (growth cfg * real_of_int (hidden_dim cfg) * pow2 (depth cfg - 1))"

text \<open>\<open>Demucs.__init__\<close> (lines 16-124).\<close>

definition demucs_init :: "(module \<Rightarrow> bool) \<Rightarrow> initial \<Rightarrow> config \<Rightarrow> error + demucs" where
  "demucs_init accepts init cfg =
     (if resample cfg \<notin> {1, 2, 4} then Inl AssertionError
      else case build_blocks accepts init cfg (map int [0..<nat (depth cfg)]) of
        Inl e \<Rightarrow> Inl e
      | Inr (encoder_blocks, decoder_blocks) \<Rightarrow>
          (let obj = \<lparr> hparams = cfg, encoder = encoder_blocks, decoder = decoder_blocks,
                       rnn = None, linear_proj = None \<rparr>;
               obj = (if rescale cfg \<noteq> 0 then rescale_conv (rescale cfg) obj else obj)
           in case new accepts (LSTM (encoder_channels cfg) (encoder_channels cfg) 2
                      (\<not> causal cfg) (use_bias cfg) (lstm_initial init)) of
                Inl e \<Rightarrow> Inl e
              | Inr r \<Rightarrow>
                  (if \<not> causal cfg
                   then (case new accepts (Linear (2 * encoder_channels cfg)
                                (encoder_channels cfg) (linear_weight init)
                                (opt_bias (use_bias cfg) (linear_bias init))) of
                           Inl e \<Rightarrow> Inl e
                         | Inr l \<Rightarrow> Inr (obj\<lparr> rnn := Some r, linear_proj := Some l \<rparr>))
                   else Inr (obj\<lparr> rnn := Some r, linear_proj := Some Identity \<rparr>))))"

section \<open>forward\<close>

text \<open>
  \<open>upsample2\<close> and \<open>downsample2\<close> are imported from \<open>resample.py\<close>; they are parameters
  here. \<open>resample == 2\<close> applies each once, \<open>resample == 4\<close> twice (lines 313-318 and
  335-340).
\<close>

record resampler =
  upsample2 :: "tensor \<Rightarrow> tensor"
  downsample2 :: "tensor \<Rightarrow> tensor"

definition upsample :: "resampler \<Rightarrow> int \<Rightarrow> tensor \<Rightarrow> tensor" where
  "upsample rs r x = (if r = 2 then upsample2 rs x
                      else if r = 4 then upsample2 rs (upsample2 rs x) else x)"

definition downsample :: "resampler \<Rightarrow> int \<Rightarrow> tensor \<Rightarrow> tensor" where
  "downsample rs r x = (if r = 2 then downsample2 rs x
                        else if r = 4 then downsample2 rs (downsample2 rs x) else x)"

text \<open>The encoder loop (lines 321-324): every block's output is appended to \<open>skips\<close>.\<close>

fun encode_levels ::
  "module list list \<Rightarrow> tensor \<Rightarrow> tensor list \<Rightarrow> error + (tensor \<times> tensor list)" where
  "encode_levels [] x skips = Inr (x, skips)"
| "encode_levels (e # es) x skips =
     (case apply_sequential e x of
        Inl err \<Rightarrow> Inl err
      | Inr y \<Rightarrow> encode_levels es y (skips @ [y]))"

text \<open>\<open>Demucs.bottleneck\<close> (lines 279-289).\<close>

definition bottleneck :: "demucs \<Rightarrow> tensor \<Rightarrow> error + tensor" where
  "bottleneck m encoded =
     (case rnn m of
        None \<Rightarrow> Inl AttributeError
      | Some r \<Rightarrow>
          (case apply_module r (permute201 encoded) of
             Inl e \<Rightarrow> Inl e
           | Inr out \<Rightarrow>
               (case linear_proj m of
                  None \<Rightarrow> Inl AttributeError
                | Some l \<Rightarrow>
                    (case apply_module l out of
                       Inl e \<Rightarrow> Inl e
                     | Inr out' \<Rightarrow> Inr (permute120 out')))))"

text \<open>
  One pass of the decoder loop (lines 331-333): pop the last skip, add its first
  \<open>x.shape[-1]\<close> steps to \<open>x\<close>, call the block.
\<close>

definition decode_level ::
  "module list \<Rightarrow> tensor \<times> tensor list \<Rightarrow> error + (tensor \<times> tensor list)" where
  "decode_level d st =
     (case st of (x, skips) \<Rightarrow>
        if skips = [] then Inl IndexError
        else (case broadcast (+) x (take_steps (d2 x) (last skips)) of
                Inl e \<Rightarrow> Inl e
              | Inr y \<Rightarrow>
                  (case apply_sequential d y of
                     Inl e \<Rightarrow> Inl e
                   | Inr z \<Rightarrow> Inr (z, butlast skips))))"

fun decode_levels ::
  "module list list \<Rightarrow> tensor \<times> tensor list \<Rightarrow> error + (tensor \<times> tensor list)" where
  "decode_levels [] st = Inr st"
| "decode_levels (d # ds) st =
     (case decode_level d st of
        Inl e \<Rightarrow> Inl e
      | Inr st' \<Rightarrow> decode_levels ds st')"

text \<open>The scalar \<open>1\<close> that stands for \<open>std\<close> without normalisation, and \<open>1e-3 + std\<close>.\<close>

definition scalar :: "real \<Rightarrow> tensor" where
  "scalar v = \<lparr> d0 = 1, d1 = 1, d2 = 1, entry = (\<lambda>n c i. v) \<rparr>"

definition add_const :: "real \<Rightarrow> tensor \<Rightarrow> tensor" where
  "add_const v x = x\<lparr> entry := (\<lambda>n c i. v + entry x n c i) \<rparr>"

text \<open>
  The normalisation of lines 302-307, on the signal after the mean over its channels:
  it returns \<open>std\<close> and the normalised signal, or the scalar \<open>1\<close> and the signal as it
  is when the model does not normalise.
\<close>

definition normalise :: "demucs \<Rightarrow> tensor \<Rightarrow> error + (tensor \<times> tensor)" where
  "normalise m x =
     (if normalize_input (hparams m)
      then (let std = std_dim2 x
            in case broadcast (/) x (add_const (1 / 1000) std) of
                 Inl e \<Rightarrow> Inl e
               | Inr y \<Rightarrow> Inr (std, y))
      else Inr (scalar 1, x))"

text \<open>
  \<open>Demucs.forward\<close> on an input of three axes, in two parts. The first part is lines
  299-327: the mean over the channels, the normalisation, the padding to the valid
  length, the upsampling, the encoder and the bottleneck. It hands \<open>std\<close>, \<open>length\<close>, the
  output of the bottleneck and the skips to the second part (\<open>length0\<close> is the
  variable \<open>length\<close>).
\<close>

definition forward_encode ::
  "resampler \<Rightarrow> demucs \<Rightarrow> tensor \<Rightarrow> error + (tensor \<times> nat \<times> tensor \<times> tensor list)" where
  "forward_encode rs m x0 =
     (case normalise m (mean_dim1 x0) of
        Inl e \<Rightarrow> Inl e
      | Inr (std, x) \<Rightarrow>
        (let length0 = d2 x
         in case valid_length (hparams m) (int length0) of
              Inl e \<Rightarrow> Inl e
            | Inr valid \<Rightarrow>
           (case pad_end x (valid - int length0) of
              Inl e \<Rightarrow> Inl e
            | Inr x \<Rightarrow>
           (case encode_levels (encoder m) (upsample rs (resample (hparams m)) x) [] of
              Inl e \<Rightarrow> Inl e
            | Inr (x, skips) \<Rightarrow>
           (case bottleneck m x of
              Inl e \<Rightarrow> Inl e
            | Inr x \<Rightarrow> Inr (std, length0, x, skips))))))"

text \<open>
  The second part is lines 329-346: the decoder with the skips, the downsampling, the
  cut to the original length0 and the product with \<open>std\<close>.
\<close>

definition forward_signal :: "resampler \<Rightarrow> demucs \<Rightarrow> tensor \<Rightarrow> error + tensor" where
  "forward_signal rs m x0 =
     (case forward_encode rs m x0 of
        Inl e \<Rightarrow> Inl e
      | Inr (std, length0, x, skips) \<Rightarrow>
          (case decode_levels (decoder m) (x, skips) of
             Inl e \<Rightarrow> Inl e
           | Inr (x, skips) \<Rightarrow>
               broadcast (*) std
                 (take_steps length0 (downsample rs (resample (hparams m)) x))))"

text \<open>\<open>Demucs.forward\<close> (lines 291-346).\<close>

fun forward :: "resampler \<Rightarrow> demucs \<Rightarrow> input \<Rightarrow> error + tensor" where
  "forward rs m (Axes1 n f) = Inl AssertionError"
| "forward rs m (Axes2 b t f) = forward_signal rs m (unsqueeze1 b t f)"
| "forward rs m (Axes3 x) = forward_signal rs m x"

section \<open>Notions used in the statements\<close>

text \<open>
  The configurations on which the length arithmetic of \<open>valid_length\<close> lines up: positive
  stride and kernel, the gated convolution of kernel and stride \<open>1\<close>, and a resampling
  factor that divides both the stride and the kernel of the convolutions. The default
  configuration is one of them.
\<close>

definition aligned :: "config \<Rightarrow> bool" where
  "aligned cfg \<longleftrightarrow>
     1 \<le> stride_conv cfg \<and> 1 \<le> kernel_conv cfg \<and> stride_glu cfg = 1 \<and> kernel_glu cfg = 1 \<and>
     resample cfg \<in> {1, 2, 4} \<and> resample cfg dvd stride_conv cfg \<and> resample cfg dvd kernel_conv cfg"

text \<open>
  On an aligned configuration one encoder pass is the function \<open>enc\<close> and never raises,
  and \<open>valid_length\<close> is the function \<open>vl\<close>.
\<close>

definition enc :: "config \<Rightarrow> int \<Rightarrow> int" where
  "enc cfg len = max (1 - (kernel_conv cfg - len) div stride_conv cfg) 1"

definition vl :: "config \<Rightarrow> int \<Rightarrow> int" where
  "vl cfg len =
     - ((- (decoder_length cfg ^^ nat (depth cfg)) ((enc cfg ^^ nat (depth cfg)) (len * resample cfg)))
          div resample cfg)"

text \<open>
  The specification's notion of a valid length, in its words: propagating the length
  through the upsampling, the encoder levels, the decoder levels and the downsampling
  gives the same length back, and no convolution loses a fractional remainder at any
  stage: every division of the encoder passes and the final division by the resampling
  factor is exact.
\<close>

fun exact_encoder :: "config \<Rightarrow> nat \<Rightarrow> int \<Rightarrow> bool" where
  "exact_encoder cfg 0 len = True"
| "exact_encoder cfg (Suc n) len =
     (stride_conv cfg dvd len - kernel_conv cfg \<and>
      stride_glu cfg dvd max ((len - kernel_conv cfg) div stride_conv cfg + 1) 1 - kernel_glu cfg \<and>
      (case encoder_length cfg len of
         Inl e \<Rightarrow> False
       | Inr len' \<Rightarrow> exact_encoder cfg n len'))"

definition fits_exactly :: "config \<Rightarrow> int \<Rightarrow> bool" where
  "fits_exactly cfg len \<longleftrightarrow>
     valid_length cfg len = Inr len \<and>
     exact_encoder cfg (nat (depth cfg)) (len * resample cfg) \<and>
     (case encoder_lengths cfg (nat (depth cfg)) (len * resample cfg) of
        Inl e \<Rightarrow> False
      | Inr len1 \<Rightarrow> resample cfg dvd decoder_lengths cfg (nat (depth cfg)) len1)"

text \<open>
  The modules that \<open>self.modules()\<close> visits and that hold parameters or act on the
  signal: the modules of every encoder and decoder block, the LSTM and the projection.
\<close>

definition modules :: "demucs \<Rightarrow> module list" where
  "modules m = concat (encoder m) @ concat (decoder m) @
     (case rnn m of None \<Rightarrow> [] | Some r \<Rightarrow> [r]) @
     (case linear_proj m of None \<Rightarrow> [] | Some l \<Rightarrow> [l])"



text \<open>\<open>isinstance(module, (nn.Conv1d, nn.ConvTranspose1d))\<close>.\<close>

definition is_conv :: "module \<Rightarrow> bool" where
  "is_conv m = (case m of Conv1d cin cout k s p w b \<Rightarrow> True
                | ConvTranspose1d cin cout k s w b \<Rightarrow> True | _ \<Rightarrow> False)"

text \<open>
  A strict tensor library, which refuses every layer with a size that is not positive,
  and one draw of initial parameters, for the concrete instances below.
\<close>

definition accepts_positive :: "module \<Rightarrow> bool" where
  "accepts_positive m =
     (case m of
        Conv1d cin cout k s p w b \<Rightarrow> 0 < cin \<and> 0 < cout \<and> 0 < k \<and> 0 < s \<and> 0 \<le> p
      | ConvTranspose1d cin cout k s w b \<Rightarrow> 0 < cin \<and> 0 < cout \<and> 0 < k \<and> 0 < s
      | LSTM isz hsz nl bidir bias w \<Rightarrow> 0 < isz \<and> 0 < hsz \<and> 0 < nl
      | Linear fin fout w b \<Rightarrow> 0 < fin \<and> 0 < fout
      | _ \<Rightarrow> True)"

definition sample_initial :: initial where
  "sample_initial =
     \<lparr> conv_weight = (\<lambda>s i j k. real k), conv_bias = (\<lambda>s i. 1),
       lstm_initial = \<lparr> weight_ih = (\<lambda>l d i j. 1 / 2), weight_hh = (\<lambda>l d i j. 1 / 4),
                        bias_ih = (\<lambda>l d i. 0), bias_hh = (\<lambda>l d i. 0) \<rparr>,
       linear_weight = (\<lambda>i j. 1), linear_bias = (\<lambda>i. 0) \<rparr>"

text \<open>
  The pairs of the decoder input \<open>x\<close> and the skip popped for it, one for every pass of
  the decoder loop that is entered, in order: the arguments \<open>decode_level\<close> is called
  with in \<open>decode_levels\<close>.
\<close>

fun decode_inputs :: "module list list \<Rightarrow> tensor \<times> tensor list \<Rightarrow> (tensor \<times> tensor) list" where
  "decode_inputs [] st = []"
| "decode_inputs (d # ds) st =
     (if snd st = [] then []
      else (fst st, last (snd st)) #
           (case decode_level d st of Inl e \<Rightarrow> [] | Inr st' \<Rightarrow> decode_inputs ds st'))"

text \<open>The same pairs for a call of \<open>forward\<close>; none when the call fails before the decoder.\<close>

definition decoder_inputs :: "resampler \<Rightarrow> demucs \<Rightarrow> input \<Rightarrow> (tensor \<times> tensor) list" where
  "decoder_inputs rs m inp =
     (case (case inp of Axes1 n f \<Rightarrow> Inl AssertionError
            | Axes2 b t f \<Rightarrow> forward_encode rs m (unsqueeze1 b t f)
            | Axes3 x \<Rightarrow> forward_encode rs m x) of
        Inl e \<Rightarrow> []
      | Inr (std, length0, x, skips) \<Rightarrow> decode_inputs (decoder m) (x, skips))"

text \<open>The blocks that \<open>_build_encoder_block\<close> and \<open>_build_decoder_block\<close> build.\<close>

definition encoder_block :: "config \<Rightarrow> module list \<Rightarrow> bool" where
  "encoder_block cfg e \<longleftrightarrow>
     (\<exists>cin cout w b cin' cout' w' b' act.
        e = [Conv1d cin cout (kernel_conv cfg) (stride_conv cfg) 0 w b, act,
             Conv1d cin' cout' (kernel_glu cfg) (stride_glu cfg) (kernel_glu cfg div 2) w' b',
             GLU] \<and>
        (act = ReLU \<or> act = Identity))"

definition decoder_block :: "config \<Rightarrow> module list \<Rightarrow> bool" where
  "decoder_block cfg d \<longleftrightarrow>
     (\<exists>cin cout w b cin' cout' w' b' act.
        d = [Conv1d cin cout (kernel_glu cfg) (stride_glu cfg) (kernel_glu cfg div 2) w b, GLU,
             ConvTranspose1d cin' cout' (kernel_conv cfg) (stride_conv cfg) w' b', act] \<and>
        (act = ReLU \<or> act = Identity))"

text \<open>Constructing a model and calling it; the shape of a tensor; a silent signal.\<close>

definition demucs_call ::
  "(module \<Rightarrow> bool) \<Rightarrow> initial \<Rightarrow> resampler \<Rightarrow> config \<Rightarrow> input \<Rightarrow> error + tensor" where
  "demucs_call accepts init rs cfg inp =
     (case demucs_init accepts init cfg of
        Inl e \<Rightarrow> Inl e
      | Inr m \<Rightarrow> forward rs m inp)"

definition shape :: "tensor \<Rightarrow> nat \<times> nat \<times> nat" where
  "shape x = (d0 x, d1 x, d2 x)"

definition silence :: "nat \<Rightarrow> nat \<Rightarrow> nat \<Rightarrow> tensor" where
  "silence b c t = \<lparr> d0 = b, d1 = c, d2 = t, entry = (\<lambda>n k i. 0) \<rparr>"

text \<open>
  A small model for calls that are followed entry by entry: one level, one hidden
  channel, no resampling, no rescaling of the weights, no bias and no normalisation; the
  other arguments at their defaults, \<open>causal = True\<close> among them.
\<close>

definition one_level_config :: config where
  "one_level_config =
     default_config\<lparr> hidden_dim := 1, depth := 1, resample := 1, rescale := 0,
                     use_bias := False, normalize_input := False \<rparr>"

text \<open>
  Synthetic weights for it: the strided convolution sums its window; the gated
  convolutions pass their input under a gate of \<open>sigmoid(0) = 1 / 2\<close>; the weights of the
  LSTM are zero, so that it returns zero; the transposed convolution multiplies by 1000.
\<close>

definition synthetic_initial :: initial where
  "synthetic_initial =
     \<lparr> conv_weight = (\<lambda>s out c j.
          case s of EncoderConv l \<Rightarrow> 1
          | EncoderGLU l \<Rightarrow> (if out = 0 then 1 else 0)
          | DecoderGLU l \<Rightarrow> (if out = 0 then 1 else 0)
          | DecoderConv l \<Rightarrow> 1000),
       conv_bias = (\<lambda>s i. 0),
       lstm_initial = \<lparr> weight_ih = (\<lambda>l d i j. 0), weight_hh = (\<lambda>l d i j. 0),
                        bias_ih = (\<lambda>l d i. 0), bias_hh = (\<lambda>l d i. 0) \<rparr>,
       linear_weight = (\<lambda>i j. 0), linear_bias = (\<lambda>i. 0) \<rparr>"

text \<open>A signal of one batch entry and one channel, given by its samples; and \<open>k * x\<close>.\<close>

definition samples :: "real list \<Rightarrow> tensor" where
  "samples xs = \<lparr> d0 = 1, d1 = 1, d2 = length xs,
                  entry = (\<lambda>n c i. if i < length xs then xs ! i else 0) \<rparr>"

definition scale :: "real \<Rightarrow> tensor \<Rightarrow> tensor" where
  "scale k x = x\<lparr> entry := (\<lambda>n c i. k * entry x n c i) \<rparr>"

text \<open>
  Modelled from the spec: \<open>upsample2\<close> and \<open>downsample2\<close> of \<open>resample.py\<close>, which is not
  among the sources. The specification fixes their lengths only: twice the length, and
  half of it. This stand-in has these lengths (half rounded down); it repeats every
  sample and keeps every second one, which the specification does not say.
\<close>

definition plain_resampler :: resampler where
  "plain_resampler =
     \<lparr> upsample2 = (\<lambda>x. x\<lparr> d2 := 2 * d2 x, entry := (\<lambda>n c i. entry x n c (i div 2)) \<rparr>),
       downsample2 = (\<lambda>x. x\<lparr> d2 := d2 x div 2, entry := (\<lambda>n c i. entry x n c (2 * i)) \<rparr>) \<rparr>"

section \<open>The shapes of a call\<close>

text \<open>
  Whether an operation of the tensor library raises, and the shape of its result,
  depend on the shapes of its arguments only. The functions of this section compute on
  shapes (batch, channel, time) what the functions of the model compute on tensors; that
  they agree is proved below, for every function.
\<close>

type_synonym shp = "nat \<times> nat \<times> nat"

definition conv1d_shape :: "int \<Rightarrow> int \<Rightarrow> int \<Rightarrow> int \<Rightarrow> int \<Rightarrow> shp \<Rightarrow> error + shp" where
  "conv1d_shape cin cout k s p sh =
     (case sh of (a, c, t) \<Rightarrow>
        if int c \<noteq> cin \<or> k < 1 \<or> s < 1 \<or> p < 0 \<or> int t + 2 * p < k then Inl RuntimeError
        else Inr (a, nat cout, nat ((int t + 2 * p - k) div s + 1)))"

definition conv_transpose1d_shape :: "int \<Rightarrow> int \<Rightarrow> int \<Rightarrow> int \<Rightarrow> shp \<Rightarrow> error + shp" where
  "conv_transpose1d_shape cin cout k s sh =
     (case sh of (a, c, t) \<Rightarrow>
        if int c \<noteq> cin \<or> k < 1 \<or> s < 1 \<or> (int t - 1) * s + k < 0 then Inl RuntimeError
        else Inr (a, nat cout, nat ((int t - 1) * s + k)))"

fun module_shape :: "module \<Rightarrow> shp \<Rightarrow> error + shp" where
  "module_shape (Conv1d cin cout k s p w b) sh = conv1d_shape cin cout k s p sh"
| "module_shape (ConvTranspose1d cin cout k s w b) sh = conv_transpose1d_shape cin cout k s sh"
| "module_shape ReLU sh = Inr sh"
| "module_shape Identity sh = Inr sh"
| "module_shape GLU (a, c, t) = (if odd c then Inl RuntimeError else Inr (a, c div 2, t))"
| "module_shape (LSTM isz hsz nl bidir bias w) (a, c, t) =
     (if int t \<noteq> isz \<or> hsz < 0 then Inl RuntimeError
      else Inr (a, c, nat hsz * (if bidir then 2 else 1)))"
| "module_shape (Linear fin fout w b) (a, c, t) =
     (if int t \<noteq> fin \<or> fout < 0 then Inl RuntimeError else Inr (a, c, nat fout))"

fun sequential_shape :: "module list \<Rightarrow> shp \<Rightarrow> error + shp" where
  "sequential_shape [] sh = Inr sh"
| "sequential_shape (m # ms) sh =
     (case module_shape m sh of Inl e \<Rightarrow> Inl e | Inr sh' \<Rightarrow> sequential_shape ms sh')"

fun encode_levels_shape :: "module list list \<Rightarrow> shp \<Rightarrow> shp list \<Rightarrow> error + (shp \<times> shp list)" where
  "encode_levels_shape [] sh skips = Inr (sh, skips)"
| "encode_levels_shape (e # es) sh skips =
     (case sequential_shape e sh of
        Inl err \<Rightarrow> Inl err
      | Inr sh' \<Rightarrow> encode_levels_shape es sh' (skips @ [sh']))"

definition bottleneck_shape :: "demucs \<Rightarrow> shp \<Rightarrow> error + shp" where
  "bottleneck_shape m sh =
     (case sh of (a, c, t) \<Rightarrow>
        (case rnn m of
           None \<Rightarrow> Inl AttributeError
         | Some r \<Rightarrow>
             (case module_shape r (t, a, c) of
                Inl e \<Rightarrow> Inl e
              | Inr out \<Rightarrow>
                  (case linear_proj m of
                     None \<Rightarrow> Inl AttributeError
                   | Some l \<Rightarrow>
                       (case module_shape l out of
                          Inl e \<Rightarrow> Inl e
                        | Inr (u, v, w) \<Rightarrow> Inr (v, w, u))))))"

definition broadcast_shape :: "shp \<Rightarrow> shp \<Rightarrow> error + shp" where
  "broadcast_shape x y =
     (case (x, y) of ((a, b, c), (a', b', c')) \<Rightarrow>
        (case (broadcast_dim a a', broadcast_dim b b', broadcast_dim c c') of
           (Some p, Some q, Some r) \<Rightarrow> Inr (p, q, r)
         | _ \<Rightarrow> Inl RuntimeError))"

definition decode_level_shape :: "module list \<Rightarrow> shp \<times> shp list \<Rightarrow> error + (shp \<times> shp list)" where
  "decode_level_shape d st =
     (case st of (sh, skips) \<Rightarrow>
        if skips = [] then Inl IndexError
        else (case last skips of (a, c, t) \<Rightarrow>
               (case broadcast_shape sh (a, c, min (snd (snd sh)) t) of
                  Inl e \<Rightarrow> Inl e
                | Inr y \<Rightarrow>
                    (case sequential_shape d y of
                       Inl e \<Rightarrow> Inl e
                     | Inr z \<Rightarrow> Inr (z, butlast skips)))))"

fun decode_levels_shape :: "module list list \<Rightarrow> shp \<times> shp list \<Rightarrow> error + (shp \<times> shp list)" where
  "decode_levels_shape [] st = Inr st"
| "decode_levels_shape (d # ds) st =
     (case decode_level_shape d st of
        Inl e \<Rightarrow> Inl e
      | Inr st' \<Rightarrow> decode_levels_shape ds st')"

fun decode_inputs_shape :: "module list list \<Rightarrow> shp \<times> shp list \<Rightarrow> (shp \<times> shp) list" where
  "decode_inputs_shape [] st = []"
| "decode_inputs_shape (d # ds) st =
     (if snd st = [] then []
      else (fst st, last (snd st)) #
           (case decode_level_shape d st of Inl e \<Rightarrow> [] | Inr st' \<Rightarrow> decode_inputs_shape ds st'))"

text \<open>
  The shape of \<open>forward\<close>, given what \<open>upsample2\<close> and \<open>downsample2\<close> do to a shape.
\<close>

definition resample_shape :: "(shp \<Rightarrow> shp) \<Rightarrow> int \<Rightarrow> shp \<Rightarrow> shp" where
  "resample_shape f r sh = (if r = 2 then f sh else if r = 4 then f (f sh) else sh)"

definition forward_encode_shape ::
  "(shp \<Rightarrow> shp) \<Rightarrow> demucs \<Rightarrow> shp \<Rightarrow> error + (shp \<times> nat \<times> shp \<times> shp list)" where
  "forward_encode_shape up m sh =
     (case sh of (a, c, t) \<Rightarrow>
        (case valid_length (hparams m) (int t) of
           Inl e \<Rightarrow> Inl e
         | Inr valid \<Rightarrow>
             if valid < 0 then Inl RuntimeError
             else (case encode_levels_shape (encoder m)
                          (resample_shape up (resample (hparams m)) (a, 1, nat valid)) [] of
                     Inl e \<Rightarrow> Inl e
                   | Inr (sh', skips) \<Rightarrow>
                       (case bottleneck_shape m sh' of
                          Inl e \<Rightarrow> Inl e
                        | Inr sh'' \<Rightarrow>
                            Inr (if normalize_input (hparams m) then (a, 1, 1) else (1, 1, 1),
                                 t, sh'', skips)))))"

definition forward_shape :: "(shp \<Rightarrow> shp) \<Rightarrow> (shp \<Rightarrow> shp) \<Rightarrow> demucs \<Rightarrow> shp \<Rightarrow> error + shp" where
  "forward_shape up down m sh =
     (case forward_encode_shape up m sh of
        Inl e \<Rightarrow> Inl e
      | Inr (std, length0, sh', skips) \<Rightarrow>
          (case decode_levels_shape (decoder m) (sh', skips) of
             Inl e \<Rightarrow> Inl e
           | Inr (sh'', skips') \<Rightarrow>
               (case resample_shape down (resample (hparams m)) sh'' of (a, c, t) \<Rightarrow>
                  broadcast_shape std (a, c, min length0 t))))"

text \<open>
  A resampler whose two functions change shapes as \<open>up\<close> and \<open>down\<close> do.
\<close>

definition resamples :: "resampler \<Rightarrow> (shp \<Rightarrow> shp) \<Rightarrow> (shp \<Rightarrow> shp) \<Rightarrow> bool" where
  "resamples rs up down \<longleftrightarrow>
     (\<forall>x. shape (upsample2 rs x) = up (shape x)) \<and> (\<forall>x. shape (downsample2 rs x) = down (shape x))"

definition encoded_shape :: "tensor \<times> nat \<times> tensor \<times> tensor list \<Rightarrow> shp \<times> nat \<times> shp \<times> shp list" where
  "encoded_shape q = (case q of (std, n, x, skips) \<Rightarrow> (shape std, n, shape x, map shape skips))"

text \<open>
  The lengths after the convolution and the gated convolution of an encoder block,
  after a decoder block, and the relation between the lengths before and after an
  encoder block that ran without error.
\<close>

definition conv_len :: "config \<Rightarrow> int \<Rightarrow> int" where
  "conv_len cfg t = (t - kernel_conv cfg) div stride_conv cfg + 1"

definition glu_len :: "config \<Rightarrow> int \<Rightarrow> int" where
  "glu_len cfg t = (t + 2 * (kernel_glu cfg div 2) - kernel_glu cfg) div stride_glu cfg + 1"

definition dec_len :: "config \<Rightarrow> int \<Rightarrow> int" where
  "dec_len cfg t = (glu_len cfg t - 1) * stride_conv cfg + kernel_conv cfg"

definition link :: "config \<Rightarrow> nat \<Rightarrow> nat \<Rightarrow> bool" where
  "link cfg t y \<longleftrightarrow>
     1 \<le> stride_conv cfg \<and> 1 \<le> stride_glu cfg \<and> 1 \<le> kernel_glu cfg \<and>
     kernel_conv cfg \<le> int t \<and> 1 \<le> conv_len cfg (int t) \<and>
     int y = glu_len cfg (conv_len cfg (int t))"

fun chained :: "config \<Rightarrow> nat \<Rightarrow> nat list \<Rightarrow> bool" where
  "chained cfg t [] = True"
| "chained cfg t (y # ys) = (link cfg t y \<and> chained cfg y ys)"

definition steps3 :: "shp \<Rightarrow> nat" where
  "steps3 sh = snd (snd sh)"


definition decoder_inputs_shape :: "(shp \<Rightarrow> shp) \<Rightarrow> demucs \<Rightarrow> shp \<Rightarrow> (shp \<times> shp) list" where
  "decoder_inputs_shape up m sh =
     (case forward_encode_shape up m sh of
        Inl e \<Rightarrow> []
      | Inr (std, length0, sh', skips) \<Rightarrow> decode_inputs_shape (decoder m) (sh', skips))"

text \<open>What the stand-in resampler does to a shape.\<close>

definition up2 :: "shp \<Rightarrow> shp" where
  "up2 sh = (case sh of (a, c, t) \<Rightarrow> (a, c, 2 * t))"

definition down2 :: "shp \<Rightarrow> shp" where
  "down2 sh = (case sh of (a, c, t) \<Rightarrow> (a, c, t div 2))"

text \<open>
  Constructing a model and reading, for one call of \<open>forward\<close>, the pairs of the lengths
  of the decoder input and of the skip popped for it.
\<close>

definition decoder_trace ::
  "(module \<Rightarrow> bool) \<Rightarrow> initial \<Rightarrow> resampler \<Rightarrow> config \<Rightarrow> input \<Rightarrow> (nat \<times> nat) list" where
  "decoder_trace accepts init rs cfg inp =
     (case demucs_init accepts init cfg of
        Inl e \<Rightarrow> []
      | Inr m \<Rightarrow> map (\<lambda>p. (d2 (fst p), d2 (snd p))) (decoder_inputs rs m inp))"

section \<open>The length arithmetic on aligned configurations\<close>

lemma encoder_length_aligned:
  assumes "aligned cfg"
  shows "encoder_length cfg len = Inr (enc cfg len)"
  using assms by (simp add: aligned_def encoder_length_def ceil_div_def enc_def Let_def max_def)

lemma encoder_lengths_aligned:
  assumes "aligned cfg"
  shows "encoder_lengths cfg n len = Inr ((enc cfg ^^ n) len)"
proof (induction n arbitrary: len)
  case 0
  show ?case by simp
next
  case (Suc n)
  show ?case by (simp add: encoder_length_aligned[OF assms] Suc funpow_swap1)
qed

lemma decoder_lengths_funpow: "decoder_lengths cfg n len = (decoder_length cfg ^^ n) len"
  by (induction n arbitrary: len) (simp_all add: funpow_swap1)

lemma enc_ge_1: "1 \<le> enc cfg len"
  by (simp add: enc_def)

lemma enc_mono:
  assumes "1 \<le> stride_conv cfg" "a \<le> b"
  shows "enc cfg a \<le> enc cfg b"
proof -
  have "(kernel_conv cfg - b) div stride_conv cfg \<le> (kernel_conv cfg - a) div stride_conv cfg"
    using assms by (intro zdiv_mono1) simp_all
  then show ?thesis by (simp add: enc_def max_def)
qed

lemma dec_mono:
  assumes "1 \<le> stride_conv cfg" "a \<le> b"
  shows "decoder_length cfg a \<le> decoder_length cfg b"
  using assms by (simp add: decoder_length_def mult_right_mono)

lemma dec_ge_1:
  assumes "1 \<le> stride_conv cfg" "1 \<le> kernel_conv cfg" "1 \<le> m"
  shows "1 \<le> decoder_length cfg m"
proof -
  have "0 \<le> (m - 1) * stride_conv cfg" using assms by simp
  then show ?thesis using assms unfolding decoder_length_def by linarith
qed

lemma enc_dec:
  assumes "1 \<le> stride_conv cfg" "1 \<le> m"
  shows "enc cfg (decoder_length cfg m) = m"
proof -
  have "kernel_conv cfg - decoder_length cfg m = (1 - m) * stride_conv cfg"
    by (simp add: decoder_length_def algebra_simps)
  then have "(kernel_conv cfg - decoder_length cfg m) div stride_conv cfg = 1 - m"
    using assms by simp
  then show ?thesis using assms by (simp add: enc_def)
qed

lemma dec_enc_ge:
  assumes "1 \<le> stride_conv cfg"
  shows "len \<le> decoder_length cfg (enc cfg len)"
proof -
  let ?s = "stride_conv cfg" and ?k = "kernel_conv cfg"
  let ?q = "(?k - len) div ?s"
  have le: "?q * ?s \<le> ?k - len"
    using assms by (metis div_mult_mod_eq le_add_same_cancel1 pos_mod_sign less_le_trans zero_less_one)
  show ?thesis
  proof (cases "0 \<le> ?q")
    case True
    then have "0 \<le> ?k - len" using assms
      by (metis div_neg_pos_less0 less_le_trans linorder_not_less zero_less_one) 
    moreover have "enc cfg len = 1" using True by (simp add: enc_def)
    ultimately show ?thesis by (simp add: decoder_length_def)
  next
    case False
    then have eq: "enc cfg len = 1 - ?q" by (simp add: enc_def)
    have "decoder_length cfg (1 - ?q) = ?k - ?q * ?s"
      by (simp add: decoder_length_def algebra_simps)
    then show ?thesis using le unfolding eq by linarith
  qed
qed

lemma enc_pow_ge_1: "0 < n \<Longrightarrow> 1 \<le> (enc cfg ^^ n) len"
  by (cases n) (simp_all add: enc_ge_1)

lemma enc_pow_mono:
  assumes "1 \<le> stride_conv cfg" "a \<le> b"
  shows "(enc cfg ^^ n) a \<le> (enc cfg ^^ n) b"
  by (induction n) (simp_all add: assms enc_mono)

lemma dec_pow_mono:
  assumes "1 \<le> stride_conv cfg" "a \<le> b"
  shows "(decoder_length cfg ^^ n) a \<le> (decoder_length cfg ^^ n) b"
  by (induction n) (simp_all add: assms dec_mono)

lemma dec_pow_ge_1:
  assumes "1 \<le> stride_conv cfg" "1 \<le> kernel_conv cfg" "1 \<le> m"
  shows "1 \<le> (decoder_length cfg ^^ n) m"
  by (induction n) (simp_all add: assms dec_ge_1)

lemma enc_dec_pow:
  assumes "1 \<le> stride_conv cfg" "1 \<le> kernel_conv cfg" "1 \<le> m"
  shows "(enc cfg ^^ n) ((decoder_length cfg ^^ n) m) = m"
proof (induction n)
  case 0
  show ?case by simp
next
  case (Suc n)
  have "(enc cfg ^^ Suc n) ((decoder_length cfg ^^ Suc n) m)
          = (enc cfg ^^ n) (enc cfg (decoder_length cfg ((decoder_length cfg ^^ n) m)))"
    by (simp add: funpow_swap1)
  also have "\<dots> = (enc cfg ^^ n) ((decoder_length cfg ^^ n) m)"
    by (simp add: enc_dec assms dec_pow_ge_1)
  finally show ?case by (simp add: Suc)
qed

lemma dec_enc_pow_ge:
  assumes "1 \<le> stride_conv cfg"
  shows "len \<le> (decoder_length cfg ^^ n) ((enc cfg ^^ n) len)"
proof (induction n arbitrary: len)
  case 0
  show ?case by simp
next
  case (Suc n)
  have "enc cfg len \<le> (decoder_length cfg ^^ n) ((enc cfg ^^ n) (enc cfg len))"
    by (rule Suc)
  then have "decoder_length cfg (enc cfg len)
               \<le> decoder_length cfg ((decoder_length cfg ^^ n) ((enc cfg ^^ n) (enc cfg len)))"
    by (rule dec_mono[OF assms])
  moreover have "len \<le> decoder_length cfg (enc cfg len)"
    by (rule dec_enc_ge[OF assms])
  ultimately show ?case by (simp add: funpow_swap1)
qed

lemma dec_pow_dvd:
  assumes "r dvd stride_conv cfg" "r dvd kernel_conv cfg" "0 < n"
  shows "r dvd (decoder_length cfg ^^ n) m"
  using assms by (cases n) (simp_all add: decoder_length_def)

lemma valid_length_aligned:
  assumes "aligned cfg"
  shows "valid_length cfg len = Inr (vl cfg len)"
  using assms
  by (simp add: valid_length_def encoder_lengths_aligned[OF assms] decoder_lengths_funpow
      ceil_div_def vl_def) (auto simp: aligned_def)

lemma aligned_pos: "aligned cfg \<Longrightarrow> 0 < resample cfg"
  by (auto simp: aligned_def)

lemma vl_mono:
  assumes "aligned cfg" "a \<le> b"
  shows "vl cfg a \<le> vl cfg b"
proof -
  have s: "1 \<le> stride_conv cfg" and r: "0 < resample cfg"
    using assms(1) by (auto simp: aligned_def)
  have "a * resample cfg \<le> b * resample cfg" using assms(2) r by simp
  then have "(decoder_length cfg ^^ nat (depth cfg)) ((enc cfg ^^ nat (depth cfg)) (a * resample cfg))
           \<le> (decoder_length cfg ^^ nat (depth cfg)) ((enc cfg ^^ nat (depth cfg)) (b * resample cfg))"
    by (intro dec_pow_mono enc_pow_mono s)
  then show ?thesis
    unfolding vl_def using r by (simp add: zdiv_mono1)
qed

lemma vl_ge:
  assumes "aligned cfg"
  shows "len \<le> vl cfg len"
proof -
  have s: "1 \<le> stride_conv cfg" and r: "0 < resample cfg"
    using assms(1) by (auto simp: aligned_def)
  let ?d = "(decoder_length cfg ^^ nat (depth cfg)) ((enc cfg ^^ nat (depth cfg)) (len * resample cfg))"
  have "len * resample cfg \<le> ?d" by (rule dec_enc_pow_ge[OF s])
  then have "- ?d \<le> - (len * resample cfg)" by simp
  then have "(- ?d) div resample cfg \<le> (- (len * resample cfg)) div resample cfg"
    using r by (intro zdiv_mono1) simp_all
  moreover have "(- (len * resample cfg)) div resample cfg = - len"
    using r by (simp add: dvd_neg_div)
  ultimately show ?thesis unfolding vl_def by simp
qed

lemma vl_times:
  assumes "aligned cfg"
  shows "vl cfg len * resample cfg =
     (decoder_length cfg ^^ nat (depth cfg)) ((enc cfg ^^ nat (depth cfg)) (len * resample cfg))"
proof (cases "nat (depth cfg)")
  case 0
  then show ?thesis using aligned_pos[OF assms] by (simp add: vl_def)
next
  case (Suc k)
  have "resample cfg dvd
     (decoder_length cfg ^^ nat (depth cfg)) ((enc cfg ^^ nat (depth cfg)) (len * resample cfg))"
    using assms Suc by (intro dec_pow_dvd) (auto simp: aligned_def)
  then show ?thesis
    unfolding vl_def by (simp add: dvd_neg_div)
qed

lemma vl_idem:
  assumes "aligned cfg"
  shows "vl cfg (vl cfg len) = vl cfg len"
proof (cases "nat (depth cfg)")
  case 0
  then show ?thesis using aligned_pos[OF assms] by (simp add: vl_def)
next
  case (Suc k)
  let ?n = "nat (depth cfg)"
  let ?e = "(enc cfg ^^ ?n) (len * resample cfg)"
  have e: "1 \<le> ?e" using Suc by (intro enc_pow_ge_1) simp
  have "(enc cfg ^^ ?n) (vl cfg len * resample cfg) = (enc cfg ^^ ?n) ((decoder_length cfg ^^ ?n) ?e)"
    by (simp add: vl_times[OF assms])
  also have "\<dots> = ?e"
    using assms e by (intro enc_dec_pow) (auto simp: aligned_def)
  finally show ?thesis by (simp add: vl_def)
qed

lemma exact_encoder_dec_pow:
  assumes "aligned cfg" "1 \<le> m"
  shows "exact_encoder cfg n ((decoder_length cfg ^^ n) m)"
proof (induction n)
  case 0
  show ?case by simp
next
  case (Suc n)
  let ?x = "(decoder_length cfg ^^ n) m"
  have s: "1 \<le> stride_conv cfg" and k: "1 \<le> kernel_conv cfg"
    and g: "stride_glu cfg = 1" "kernel_glu cfg = 1"
    using assms(1) by (auto simp: aligned_def)
  have x: "1 \<le> ?x" by (rule dec_pow_ge_1[OF s k assms(2)])
  have d: "decoder_length cfg ?x - kernel_conv cfg = (?x - 1) * stride_conv cfg"
    by (simp add: decoder_length_def)
  have "encoder_length cfg (decoder_length cfg ?x) = Inr ?x"
    by (simp add: encoder_length_aligned[OF assms(1)] enc_dec[OF s x])
  then show ?case using Suc g by (simp add: d)
qed

lemma fits_exactly_vl:
  assumes "aligned cfg"
  shows "fits_exactly cfg (vl cfg len)"
proof -
  let ?n = "nat (depth cfg)"
  have r: "0 < resample cfg" by (rule aligned_pos[OF assms])
  have a: "valid_length cfg (vl cfg len) = Inr (vl cfg len)"
    by (simp add: valid_length_aligned[OF assms] vl_idem[OF assms])
  have b: "exact_encoder cfg ?n (vl cfg len * resample cfg)"
  proof (cases ?n)
    case 0
    then show ?thesis by simp
  next
    case (Suc k)
    then have "1 \<le> (enc cfg ^^ ?n) (len * resample cfg)" by (intro enc_pow_ge_1) simp
    then show ?thesis
      unfolding vl_times[OF assms] by (rule exact_encoder_dec_pow[OF assms])
  qed
  have "resample cfg dvd vl cfg (vl cfg len) * resample cfg" by simp
  then have c: "resample cfg dvd
      (decoder_length cfg ^^ ?n) ((enc cfg ^^ ?n) (vl cfg len * resample cfg))"
    unfolding vl_times[OF assms] .
  show ?thesis
    unfolding fits_exactly_def
    using a b c by (simp add: encoder_lengths_aligned[OF assms] decoder_lengths_funpow)
qed

text \<open>
  The dividends of a call on a length that \<open>valid_length\<close> returned lie between \<open>0\<close> and
  the last dividend of the call that returned it, so the second call stays within the
  range of exact doubles when the first does.
\<close>

lemma dec_ge_self:
  assumes "1 \<le> stride_conv cfg" "1 \<le> kernel_conv cfg" "1 \<le> m"
  shows "m \<le> decoder_length cfg m"
proof -
  have "(m - 1) * 1 \<le> (m - 1) * stride_conv cfg"
    using assms by (intro mult_left_mono) simp_all
  then show ?thesis using assms by (simp add: decoder_length_def)
qed

lemma encoder_dividends_dec_pow:
  assumes a: "aligned cfg" and m: "1 \<le> m"
  shows "\<forall>a\<in>set (encoder_dividends cfg n ((decoder_length cfg ^^ n) m)).
           0 \<le> a \<and> a \<le> (decoder_length cfg ^^ n) m"
proof (induction n)
  case 0
  show ?case by simp
next
  case (Suc n)
  let ?x = "(decoder_length cfg ^^ n) m"
  have s: "1 \<le> stride_conv cfg" and k: "1 \<le> kernel_conv cfg"
    and g: "stride_glu cfg = 1" "kernel_glu cfg = 1"
    using a by (auto simp: aligned_def)
  have x: "1 \<le> ?x" by (rule dec_pow_ge_1[OF s k m])
  have xd: "?x \<le> decoder_length cfg ?x" by (rule dec_ge_self[OF s k x])
  have d: "decoder_length cfg ?x - kernel_conv cfg = (?x - 1) * stride_conv cfg"
    by (simp add: decoder_length_def)
  have d0: "0 \<le> (?x - 1) * stride_conv cfg" using x s by simp
  have q: "ceil_div ((?x - 1) * stride_conv cfg) (stride_conv cfg) = Inr (?x - 1)"
    using s by (simp add: ceil_div_def dvd_neg_div)
  have el: "encoder_length cfg (decoder_length cfg ?x) = Inr ?x"
    by (simp add: encoder_length_aligned[OF a] enc_dec[OF s x])
  have eq: "encoder_dividends cfg (Suc n) (decoder_length cfg ?x) =
          (?x - 1) * stride_conv cfg # (?x - 1) # encoder_dividends cfg n ?x"
    using x by (simp add: d q el g)
  have top: "(decoder_length cfg ^^ Suc n) m = decoder_length cfg ?x" by simp
  have a1: "(?x - 1) * stride_conv cfg \<le> decoder_length cfg ?x"
    using k by (simp add: decoder_length_def)
  have a2: "0 \<le> ?x - 1" "?x - 1 \<le> decoder_length cfg ?x" using x xd by simp_all
  have a3: "0 \<le> b \<and> b \<le> decoder_length cfg ?x"
    if "b \<in> set (encoder_dividends cfg n ?x)" for b
    using Suc that xd by force
  show ?case unfolding top unfolding eq using d0 a1 a2 a3 by simp
qed

lemma final_dividend:
  assumes "aligned cfg"
  shows "vl cfg len * resample cfg \<in> set (dividends cfg len)"
  by (simp add: dividends_def encoder_lengths_aligned[OF assms] decoder_lengths_funpow
      vl_times[OF assms])

lemma double_exact_vl:
  assumes a: "aligned cfg" and d: "double_exact cfg len"
  shows "double_exact cfg (vl cfg len)"
proof -
  let ?n = "nat (depth cfg)"
  let ?e = "(enc cfg ^^ ?n) (len * resample cfg)"
  let ?F = "vl cfg len * resample cfg"
  have F: "\<bar>?F\<bar> < 2 ^ 53" using d final_dividend[OF a, of len] by (simp add: double_exact_def)
  have c: "\<bar>stride_conv cfg\<bar> < 2 ^ 53 \<and> \<bar>stride_glu cfg\<bar> < 2 ^ 53 \<and> \<bar>resample cfg\<bar> < 2 ^ 53"
    using d by (simp add: double_exact_def)
  have s: "1 \<le> stride_conv cfg" and k: "1 \<le> kernel_conv cfg"
    using a by (auto simp: aligned_def)
  show ?thesis
  proof (cases ?n)
    case 0
    then have "dividends cfg (vl cfg len) = [?F]"
      by (simp add: dividends_def)
    then show ?thesis using F c by (simp add: double_exact_def)
  next
    case (Suc j)
    then have e: "1 \<le> ?e" by (intro enc_pow_ge_1) simp
    have Fd: "?F = (decoder_length cfg ^^ ?n) ?e" by (rule vl_times[OF a])
    have el: "encoder_lengths cfg ?n ?F = Inr ?e"
      unfolding Fd by (simp add: encoder_lengths_aligned[OF a] enc_dec_pow[OF s k e])
    have "dividends cfg (vl cfg len) = encoder_dividends cfg ?n ?F @ [?F]"
      by (simp add: dividends_def el decoder_lengths_funpow Fd[symmetric])
    moreover have "\<forall>a\<in>set (encoder_dividends cfg ?n ?F). 0 \<le> a \<and> a \<le> ?F"
      unfolding Fd by (rule encoder_dividends_dec_pow[OF a e])
    ultimately show ?thesis using F c by (auto simp: double_exact_def)
  qed
qed

lemma double_exact_16000: "double_exact default_config 16000"
  by (simp add: double_exact_def dividends_def default_config_def encoder_length_def ceil_div_def
      decoder_length_def eval_nat_numeral)

text \<open>
  Claim C4, as amended: on every aligned configuration, and for every integer length
  whose call of \<open>valid_length\<close> keeps the divisor and the dividend of each
  \<open>math.ceil(a / b)\<close> below \<open>2 ^ 53\<close> in absolute value, \<open>valid_length\<close> returns; the call on
  the length it returns stays within that range, and returns the same length: the
  result is a fixed point.
\<close>

theorem valid_length_idempotent:
  assumes "aligned cfg" and "double_exact cfg len"
  shows "\<exists>v. valid_length cfg len = Inr v \<and> double_exact cfg v \<and> valid_length cfg v = Inr v"
  by (simp add: valid_length_aligned[OF assms(1)] vl_idem[OF assms(1)]
      double_exact_vl[OF assms])

text \<open>
  The default configuration is aligned and one second of audio at 16 kHz is within the
  range, so the theorem applies to it: the valid length is 16213.
\<close>

theorem valid_length_idempotent_witness:
  "aligned default_config \<and> double_exact default_config 16000 \<and>
   valid_length default_config 16000 = Inr 16213 \<and> double_exact default_config 16213 \<and>
   valid_length default_config 16213 = Inr 16213"
proof -
  have h: "aligned default_config" by (simp add: aligned_def default_config_def)
  have v: "valid_length default_config 16000 = Inr 16213"
    by (simp add: valid_length_def default_config_def encoder_length_def ceil_div_def
        decoder_length_def eval_nat_numeral)
  from valid_length_idempotent[OF h double_exact_16000] v h double_exact_16000
  show ?thesis by auto
qed

text \<open>
  Claim C4 as stated, for every configuration, fails: with \<open>kernel_conv = 7\<close> and the
  other arguments at their defaults the decoder lengths are odd, the final division by
  \<open>resample = 4\<close> rounds up, and \<open>valid_length(1) = 512\<close> while
  \<open>valid_length(512) = 768\<close>.
\<close>

theorem valid_length_not_idempotent:
  "valid_length (default_config\<lparr>kernel_conv := 7\<rparr>) 1 = Inr 512 \<and>
   valid_length (default_config\<lparr>kernel_conv := 7\<rparr>) 512 = Inr 768"
  by (simp add: valid_length_def default_config_def encoder_length_def ceil_div_def
      decoder_length_def eval_nat_numeral)

text \<open>
  Claim C5, as amended: on every aligned configuration, and for every integer length
  \<open>len\<close> whose call of \<open>valid_length\<close> keeps the divisor and the dividend of each
  \<open>math.ceil(a / b)\<close> below \<open>2 ^ 53\<close> in absolute value, \<open>valid_length\<close> returns the least length
  \<open>v \<ge> len\<close> that the analytic chain maps to itself with no division leaving a remainder.
\<close>

theorem valid_length_least:
  assumes "aligned cfg" and "double_exact cfg len"
  shows "\<exists>v. valid_length cfg len = Inr v \<and> len \<le> v \<and> double_exact cfg v \<and>
             fits_exactly cfg v \<and> (\<forall>m. len \<le> m \<and> fits_exactly cfg m \<longrightarrow> v \<le> m)"
proof -
  have "vl cfg len \<le> m" if "len \<le> m" "fits_exactly cfg m" for m
  proof -
    have "valid_length cfg m = Inr m" using that(2) by (simp add: fits_exactly_def)
    then have "vl cfg m = m" by (simp add: valid_length_aligned[OF assms(1)])
    then show ?thesis using vl_mono[OF assms(1) that(1)] by simp
  qed
  then show ?thesis
    using vl_ge[OF assms(1)] fits_exactly_vl[OF assms(1)] double_exact_vl[OF assms]
    by (auto simp: valid_length_aligned[OF assms(1)])
qed

text \<open>
  On the default configuration, the valid length of one second of audio at 16 kHz is
  16213, and no length from 16000 up to it is valid, 16100 for one.
\<close>

theorem valid_length_least_witness:
  "aligned default_config \<and> double_exact default_config 16000 \<and>
   valid_length default_config 16000 = Inr 16213 \<and>
   (16000::int) \<le> 16213 \<and> fits_exactly default_config 16213 \<and>
   \<not> fits_exactly default_config 16100"
proof -
  have h: "aligned default_config" by (simp add: aligned_def default_config_def)
  have v: "valid_length default_config 16000 = Inr 16213"
    by (simp add: valid_length_def default_config_def encoder_length_def ceil_div_def
        decoder_length_def eval_nat_numeral)
  from valid_length_least[OF h double_exact_16000] v
  have f: "fits_exactly default_config 16213"
    and least: "\<And>m. 16000 \<le> m \<Longrightarrow> fits_exactly default_config m \<Longrightarrow> 16213 \<le> m"
    by auto
  from least[of 16100] have "\<not> fits_exactly default_config 16100" by auto
  with h v f double_exact_16000 show ?thesis by simp
qed

text \<open>
  Claim C5 as stated, for every configuration, fails: with \<open>kernel_conv = 7\<close> the length
  \<open>valid_length(1) = 512\<close> is not mapped to itself by the chain.
\<close>

theorem valid_length_not_fitting:
  "valid_length (default_config\<lparr>kernel_conv := 7\<rparr>) 1 = Inr 512 \<and>
   \<not> fits_exactly (default_config\<lparr>kernel_conv := 7\<rparr>) 512"
  by (simp add: fits_exactly_def valid_length_def default_config_def encoder_length_def
      ceil_div_def decoder_length_def eval_nat_numeral)

section \<open>The constructed model\<close>

lemma new_Inr: "new accepts m = Inr m' \<Longrightarrow> m' = m"
  by (simp add: new_def split: if_splits)

lemma new_not_assertion: "new accepts m \<noteq> Inl AssertionError"
  by (simp add: new_def)

lemma build_encoder_block_shape:
  assumes "build_encoder_block accepts init cfg level use_relu = Inr eb"
  shows "\<exists>cin cout w b cin' cout' p w' b'.
           eb = [Conv1d cin cout (kernel_conv cfg) (stride_conv cfg) 0 w b,
                 if use_relu then ReLU else Identity,
                 Conv1d cin' cout' (kernel_glu cfg) (stride_glu cfg) p w' b', GLU]"
  using assms
  by (auto simp: build_encoder_block_def Let_def new_def split: sum.splits if_splits)

lemma build_decoder_block_shape:
  assumes "build_decoder_block accepts init cfg level use_relu = Inr db"
  shows "\<exists>cin cout p w b cin' w' b'.
           db = [Conv1d cin cout (kernel_glu cfg) (stride_glu cfg) p w b, GLU,
                 ConvTranspose1d cin' (if level = 0 then 1
                     else py_int (real_of_int (hidden_dim cfg) * growth cfg * pow2 (level - 1)))
                   (kernel_conv cfg) (stride_conv cfg) w' b',
                 if use_relu then ReLU else Identity]"
  using assms
  by (auto simp: build_decoder_block_def Let_def new_def split: sum.splits if_splits)

lemma build_blocks_Inr:
  assumes "build_blocks accepts init cfg idx = Inr (es, ds)"
  shows "length es = length idx \<and> length ds = length idx \<and>
         (\<forall>k<length idx.
            build_encoder_block accepts init cfg (idx ! k) (original cfg \<or> idx ! k \<noteq> 0)
              = Inr (es ! k) \<and>
            build_decoder_block accepts init cfg (depth cfg - idx ! k - 1)
                (depth cfg - idx ! k - 1 > 0) = Inr (ds ! k))"
  using assms
proof (induction idx arbitrary: es ds)
  case Nil
  then show ?case by simp
next
  case (Cons i rest)
  from Cons.prems obtain eb db es' ds' where
    eb: "build_encoder_block accepts init cfg i (original cfg \<or> i \<noteq> 0) = Inr eb" and
    db: "build_decoder_block accepts init cfg (depth cfg - i - 1) (depth cfg - i - 1 > 0) = Inr db" and
    rest: "build_blocks accepts init cfg rest = Inr (es', ds')" and
    eq: "es = eb # es'" "ds = db # ds'"
    by (auto split: sum.splits)
  from Cons.IH[OF rest] eb db eq show ?case
    by (auto simp: nth_Cons split: nat.splits)
qed

lemma construct_Inr:
  assumes "demucs_init accepts init cfg = Inr m"
  shows "resample cfg \<in> {1, 2, 4} \<and>
    (\<exists>es ds. build_blocks accepts init cfg (map int [0..<nat (depth cfg)]) = Inr (es, ds) \<and>
       hparams m = cfg \<and>
       encoder m = (if rescale cfg \<noteq> 0 then map (map (rescale_module (rescale cfg))) es else es) \<and>
       decoder m = (if rescale cfg \<noteq> 0 then map (map (rescale_module (rescale cfg))) ds else ds) \<and>
       rnn m = Some (LSTM (encoder_channels cfg) (encoder_channels cfg) 2 (\<not> causal cfg)
                      (use_bias cfg) (lstm_initial init)) \<and>
       linear_proj m = Some (if \<not> causal cfg
                        then Linear (2 * encoder_channels cfg) (encoder_channels cfg)
                               (linear_weight init) (opt_bias (use_bias cfg) (linear_bias init))
                        else Identity))"
  using assms
  by (auto simp: demucs_init_def Let_def rescale_conv_def new_def
      split: sum.splits if_splits)

lemma demucs_init_positive:
  assumes "resample cfg \<in> {1, 2, 4}" "hidden_dim cfg = 64" "growth cfg = 1" "depth cfg = 5"
    "stride_conv cfg = 4" "kernel_conv cfg = 8" "stride_glu cfg = 1" "kernel_glu cfg = 1"
  shows "\<exists>m. demucs_init accepts_positive init cfg = Inr m"
  using assms
  by (simp add: demucs_init_def new_def accepts_positive_def
      build_encoder_block_def build_decoder_block_def encoder_channels_def py_int_def pow2_def
      Let_def upt_rec numeral_eq_Suc)

lemma rescale_activation:
  "rescale_module r (if a then ReLU else Identity) = (if a then ReLU else Identity)"
  by simp

text \<open>
  Claim C9: in a constructed model there are \<open>depth\<close> encoder blocks and \<open>depth\<close>
  decoder blocks; the activation after the convolution of encoder block \<open>i\<close> is ReLU
  when \<open>i \<ge> 1\<close> or \<open>original\<close> is set, and the identity otherwise; every decoder
  block but the last ends with ReLU, and the last one, whose transposed convolution has
  one output channel, ends with the identity.
\<close>

theorem activation_placement:
  assumes "demucs_init accepts init cfg = Inr m"
  shows "length (encoder m) = nat (depth cfg) \<and> length (decoder m) = nat (depth cfg) \<and>
    (\<forall>i<nat (depth cfg).
       (\<exists>conv conv_glu. encoder m ! i =
           [conv, if original cfg \<or> i \<noteq> 0 then ReLU else Identity, conv_glu, GLU]) \<and>
       (\<exists>deconv_glu cin cout k s w b. decoder m ! i =
           [deconv_glu, GLU, ConvTranspose1d cin cout k s w b,
            if i + 1 < nat (depth cfg) then ReLU else Identity] \<and>
           (i + 1 = nat (depth cfg) \<longrightarrow> cout = 1)))"
proof -
  let ?n = "nat (depth cfg)"
  let ?idx = "map int [0..<?n]"
  from construct_Inr[OF assms] obtain es ds where
    bb: "build_blocks accepts init cfg ?idx = Inr (es, ds)" and
    enc: "encoder m = (if rescale cfg \<noteq> 0 then map (map (rescale_module (rescale cfg))) es else es)" and
    dec: "decoder m = (if rescale cfg \<noteq> 0 then map (map (rescale_module (rescale cfg))) ds else ds)"
    by blast
  note B = build_blocks_Inr[OF bb]
  have len: "length es = ?n" "length ds = ?n" using B by simp_all
  have blocks: "(\<exists>conv conv_glu. encoder m ! i =
           [conv, if original cfg \<or> i \<noteq> 0 then ReLU else Identity, conv_glu, GLU]) \<and>
       (\<exists>deconv_glu cin cout k s w b. decoder m ! i =
           [deconv_glu, GLU, ConvTranspose1d cin cout k s w b,
            if i + 1 < ?n then ReLU else Identity] \<and>
           (i + 1 = ?n \<longrightarrow> cout = 1))" if i: "i < ?n" for i
  proof -
    have idx: "?idx ! i = int i" using i by simp
    have il: "i < length ?idx" using i by simp
    from B have "\<forall>k<length ?idx.
            build_encoder_block accepts init cfg (?idx ! k) (original cfg \<or> ?idx ! k \<noteq> 0)
              = Inr (es ! k) \<and>
            build_decoder_block accepts init cfg (depth cfg - ?idx ! k - 1)
                (depth cfg - ?idx ! k - 1 > 0) = Inr (ds ! k)"
      by blast
    from this[rule_format, OF il] have
      eb: "build_encoder_block accepts init cfg (int i) (original cfg \<or> int i \<noteq> 0) = Inr (es ! i)" and
      db: "build_decoder_block accepts init cfg (depth cfg - int i - 1) (depth cfg - int i - 1 > 0)
             = Inr (ds ! i)"
      unfolding idx by blast+
    from build_encoder_block_shape[OF eb] obtain c g where
      e: "es ! i = [c, if original cfg \<or> i \<noteq> 0 then ReLU else Identity, g, GLU]"
      by auto
    have relu: "(depth cfg - int i - 1 > 0) = (i + 1 < ?n)" using i by auto
    have lvl: "(depth cfg - int i - 1 = 0) = (i + 1 = ?n)" using i by auto
    from build_decoder_block_shape[OF db] obtain dg cin cout k s w b where
      d: "ds ! i = [dg, GLU, ConvTranspose1d cin cout k s w b,
                    if i + 1 < ?n then ReLU else Identity]" and
      c1: "i + 1 = ?n \<longrightarrow> cout = 1"
      unfolding relu lvl by auto
    show ?thesis
    proof (cases "rescale cfg \<noteq> 0")
      case False
      then show ?thesis using e d c1 enc dec by auto
    next
      case True
      then have "encoder m ! i = map (rescale_module (rescale cfg)) (es ! i)"
        and "decoder m ! i = map (rescale_module (rescale cfg)) (ds ! i)"
        using enc dec len i by simp_all
      then show ?thesis using c1 unfolding e d
        by (auto simp: Let_def)
    qed
  qed
  show ?thesis using blocks enc dec len by auto
qed

text \<open>
  With \<open>original\<close> unset, the first encoder block has no activation, the second has
  ReLU, and the last decoder block ends with the identity.
\<close>

theorem activation_placement_witness:
  "\<exists>m. demucs_init accepts_positive sample_initial (default_config\<lparr>original := False\<rparr>) = Inr m \<and>
       length (encoder m) = 5 \<and> length (decoder m) = 5 \<and>
       encoder m ! 0 ! 1 = Identity \<and> encoder m ! 1 ! 1 = ReLU \<and>
       decoder m ! 3 ! 3 = ReLU \<and> decoder m ! 4 ! 3 = Identity"
proof -
  from demucs_init_positive[of "default_config\<lparr>original := False\<rparr>" sample_initial] obtain m where
    m: "demucs_init accepts_positive sample_initial (default_config\<lparr>original := False\<rparr>) = Inr m"
    by (auto simp: default_config_def)
  have d: "nat (depth (default_config\<lparr>original := False\<rparr>)) = 5"
    "original (default_config\<lparr>original := False\<rparr>) = False"
    by (simp_all add: default_config_def)
  note A = activation_placement[OF m, unfolded d]
  from A have len: "length (encoder m) = 5" "length (decoder m) = 5" by simp_all
  from A have "\<exists>conv conv_glu. encoder m ! 0 = [conv, Identity, conv_glu, GLU]"
    by (auto dest: spec[of _ 0])
  moreover from A have "\<exists>conv conv_glu. encoder m ! 1 = [conv, ReLU, conv_glu, GLU]"
    by (auto dest: spec[of _ 1])
  moreover from A have "\<exists>g cin cout k s w b. decoder m ! 3 = [g, GLU, ConvTranspose1d cin cout k s w b, ReLU]"
    by (auto dest!: spec[of _ 3])
  moreover from A have "\<exists>g cin cout k s w b. decoder m ! 4 = [g, GLU, ConvTranspose1d cin cout k s w b, Identity]"
    by (auto dest!: spec[of _ 4])
  ultimately show ?thesis using m len by auto
qed

lemma build_encoder_block_rescale [simp]:
  "build_encoder_block accepts init (cfg\<lparr>rescale := r\<rparr>) level u =
   build_encoder_block accepts init cfg level u"
  by (simp add: build_encoder_block_def Let_def cong: sum.case_cong)

lemma build_decoder_block_rescale [simp]:
  "build_decoder_block accepts init (cfg\<lparr>rescale := r\<rparr>) level u =
   build_decoder_block accepts init cfg level u"
  by (simp add: build_decoder_block_def Let_def cong: sum.case_cong)

lemma build_blocks_rescale [simp]:
  "build_blocks accepts init (cfg\<lparr>rescale := r\<rparr>) idx = build_blocks accepts init cfg idx"
  by (induction idx) (simp_all cong: sum.case_cong)

lemma rescale_module_not_conv: "\<not> is_conv m \<Longrightarrow> rescale_module r m = m"
  by (cases m) (simp_all add: is_conv_def)

lemma construct_unrescaled:
  assumes "demucs_init accepts init cfg = Inr m"
  shows "\<exists>m0. demucs_init accepts init (cfg\<lparr>rescale := 0\<rparr>) = Inr m0 \<and>
           rnn m = rnn m0 \<and> linear_proj m = linear_proj m0 \<and>
           modules m = (if rescale cfg \<noteq> 0 then map (rescale_module (rescale cfg)) (modules m0)
                        else modules m0)"
proof -
  from construct_Inr[OF assms] obtain es ds where
    r: "resample cfg \<in> {1, 2, 4}" and
    bb: "build_blocks accepts init cfg (map int [0..<nat (depth cfg)]) = Inr (es, ds)" and
    enc: "encoder m = (if rescale cfg \<noteq> 0 then map (map (rescale_module (rescale cfg))) es else es)" and
    dec: "decoder m = (if rescale cfg \<noteq> 0 then map (map (rescale_module (rescale cfg))) ds else ds)" and
    rn: "rnn m = Some (LSTM (encoder_channels cfg) (encoder_channels cfg) 2 (\<not> causal cfg)
                      (use_bias cfg) (lstm_initial init))" and
    li: "linear_proj m = Some (if \<not> causal cfg
                        then Linear (2 * encoder_channels cfg) (encoder_channels cfg)
                               (linear_weight init) (opt_bias (use_bias cfg) (linear_bias init))
                        else Identity)"
    by blast
  have acc: "accepts (LSTM (encoder_channels cfg) (encoder_channels cfg) 2 (\<not> causal cfg)
                      (use_bias cfg) (lstm_initial init))"
    "\<not> causal cfg \<Longrightarrow> accepts (Linear (2 * encoder_channels cfg) (encoder_channels cfg)
                               (linear_weight init) (opt_bias (use_bias cfg) (linear_bias init)))"
    using assms r bb
    by (auto simp: demucs_init_def Let_def new_def split: sum.splits if_splits)
  let ?m0 = "\<lparr> hparams = cfg\<lparr>rescale := 0\<rparr>, encoder = es, decoder = ds, rnn = rnn m, linear_proj = linear_proj m \<rparr>"
  have c0: "demucs_init accepts init (cfg\<lparr>rescale := 0\<rparr>) = Inr ?m0"
    using r bb acc rn li
    by (auto simp: demucs_init_def Let_def new_def encoder_channels_def)
  have "modules m = (if rescale cfg \<noteq> 0 then map (rescale_module (rescale cfg)) (modules ?m0)
                        else modules ?m0)"
    using enc dec rn li by (auto simp: modules_def map_concat)
  with c0 show ?thesis by auto
qed

text \<open>
  Claim C8: when \<open>rescale\<close> is not zero, the constructed model is the model constructed
  without rescaling, with every weight \<open>W\<close> of a convolution or transposed convolution
  divided once by \<open>sqrt (std W / rescale)\<close>, and its bias, when present, divided by the
  same number.
\<close>

theorem rescale_pass:
  assumes "demucs_init accepts init cfg = Inr m" and "rescale cfg \<noteq> 0"
  shows "\<exists>m0. demucs_init accepts init (cfg\<lparr>rescale := 0\<rparr>) = Inr m0 \<and>
           length (modules m) = length (modules m0) \<and>
           (\<forall>i<length (modules m0).
              (\<forall>cin cout k s p w b. modules m0 ! i = Conv1d cin cout k s p w b \<longrightarrow>
                 modules m ! i = Conv1d cin cout k s p
                   (\<lambda>x y z. w x y z / sqrt (tensor_std (nat cout) (nat cin) (nat k) w / rescale cfg))
                   (map_option
                      (\<lambda>v x. v x / sqrt (tensor_std (nat cout) (nat cin) (nat k) w / rescale cfg)) b)) \<and>
              (\<forall>cin cout k s w b. modules m0 ! i = ConvTranspose1d cin cout k s w b \<longrightarrow>
                 modules m ! i = ConvTranspose1d cin cout k s
                   (\<lambda>x y z. w x y z / sqrt (tensor_std (nat cin) (nat cout) (nat k) w / rescale cfg))
                   (map_option
                      (\<lambda>v x. v x / sqrt (tensor_std (nat cin) (nat cout) (nat k) w / rescale cfg)) b)))"
proof -
  from construct_unrescaled[OF assms(1)] assms(2) obtain m0 where
    c0: "demucs_init accepts init (cfg\<lparr>rescale := 0\<rparr>) = Inr m0" and
    ms: "modules m = map (rescale_module (rescale cfg)) (modules m0)"
    by auto
  show ?thesis
    using c0 by (auto simp: ms Let_def)
qed

text \<open>
  Claim C10: the LSTM and the projection of a constructed model hold the parameters they
  were drawn with, whatever \<open>rescale\<close> is; a rescaling pass over the finished model
  would leave them as they are; and every module that is no convolution is the same
  as in the model constructed without rescaling.
\<close>

theorem rescale_frame:
  assumes "demucs_init accepts init cfg = Inr m"
  shows "rnn m = Some (LSTM (encoder_channels cfg) (encoder_channels cfg) 2 (\<not> causal cfg)
                      (use_bias cfg) (lstm_initial init)) \<and>
         linear_proj m = Some (if \<not> causal cfg
                        then Linear (2 * encoder_channels cfg) (encoder_channels cfg)
                               (linear_weight init) (opt_bias (use_bias cfg) (linear_bias init))
                        else Identity) \<and>
         rnn (rescale_conv r m) = rnn m \<and> linear_proj (rescale_conv r m) = linear_proj m \<and>
         (\<exists>m0. demucs_init accepts init (cfg\<lparr>rescale := 0\<rparr>) = Inr m0 \<and>
            length (modules m) = length (modules m0) \<and>
            (\<forall>i<length (modules m0). \<not> is_conv (modules m0 ! i) \<longrightarrow> modules m ! i = modules m0 ! i))"
proof -
  from construct_Inr[OF assms] have
    rn: "rnn m = Some (LSTM (encoder_channels cfg) (encoder_channels cfg) 2 (\<not> causal cfg)
                      (use_bias cfg) (lstm_initial init))" and
    li: "linear_proj m = Some (if \<not> causal cfg
                        then Linear (2 * encoder_channels cfg) (encoder_channels cfg)
                               (linear_weight init) (opt_bias (use_bias cfg) (linear_bias init))
                        else Identity)"
    by blast+
  have fr: "rnn (rescale_conv r m) = rnn m" "linear_proj (rescale_conv r m) = linear_proj m"
    by (simp_all add: rescale_conv_def rn li)
  from construct_unrescaled[OF assms] obtain m0 where
    c0: "demucs_init accepts init (cfg\<lparr>rescale := 0\<rparr>) = Inr m0" and
    ms: "modules m = (if rescale cfg \<noteq> 0 then map (rescale_module (rescale cfg)) (modules m0)
                        else modules m0)"
    by auto
  have "length (modules m) = length (modules m0) \<and>
            (\<forall>i<length (modules m0). \<not> is_conv (modules m0 ! i) \<longrightarrow> modules m ! i = modules m0 ! i)"
    by (simp add: ms rescale_module_not_conv)
  with c0 rn li fr show ?thesis by blast
qed






text \<open>
  The first convolution of the default model, drawn with the weights of
  \<open>sample_initial\<close>.
\<close>

theorem rescale_pass_witness:
  "\<exists>m m0. demucs_init accepts_positive sample_initial default_config = Inr m \<and>
     rescale default_config \<noteq> 0 \<and>
     demucs_init accepts_positive sample_initial (default_config\<lparr>rescale := 0\<rparr>) = Inr m0 \<and>
     length (modules m) = length (modules m0) \<and>
     modules m0 ! 0 = Conv1d 1 64 8 4 0 (\<lambda>i j k. real k) (Some (\<lambda>i. 1)) \<and>
     modules m ! 0 = Conv1d 1 64 8 4 0
        (\<lambda>i j k. real k / sqrt (tensor_std 64 1 8 (\<lambda>i j k. real k) / (1 / 10)))
        (Some (\<lambda>i. 1 / sqrt (tensor_std 64 1 8 (\<lambda>i j k. real k) / (1 / 10))))"
proof -
  from demucs_init_positive[of default_config sample_initial] obtain m where
    m: "demucs_init accepts_positive sample_initial default_config = Inr m"
    by (auto simp: default_config_def)
  have r: "rescale default_config \<noteq> 0" by (simp add: default_config_def)
  from rescale_pass[OF m r] obtain m0 where
    P: "demucs_init accepts_positive sample_initial (default_config\<lparr>rescale := 0\<rparr>) = Inr m0 \<and>
        length (modules m) = length (modules m0) \<and>
        (\<forall>i<length (modules m0).
              (\<forall>cin cout k s p w b. modules m0 ! i = Conv1d cin cout k s p w b \<longrightarrow>
                 modules m ! i = Conv1d cin cout k s p
                   (\<lambda>x y z. w x y z / sqrt (tensor_std (nat cout) (nat cin) (nat k) w / rescale default_config))
                   (map_option
                      (\<lambda>v x. v x / sqrt (tensor_std (nat cout) (nat cin) (nat k) w / rescale default_config)) b)) \<and>
              (\<forall>cin cout k s w b. modules m0 ! i = ConvTranspose1d cin cout k s w b \<longrightarrow>
                 modules m ! i = ConvTranspose1d cin cout k s
                   (\<lambda>x y z. w x y z / sqrt (tensor_std (nat cin) (nat cout) (nat k) w / rescale default_config))
                   (map_option
                      (\<lambda>v x. v x / sqrt (tensor_std (nat cin) (nat cout) (nat k) w / rescale default_config)) b)))"
    by (rule exE)
  from P have m0: "demucs_init accepts_positive sample_initial (default_config\<lparr>rescale := 0\<rparr>) = Inr m0"
    and len: "length (modules m) = length (modules m0)"
    by simp_all
  from P have all: "\<And>i cin cout k s p w b. i < length (modules m0) \<Longrightarrow>
                 modules m0 ! i = Conv1d cin cout k s p w b \<Longrightarrow>
                 modules m ! i = Conv1d cin cout k s p
                   (\<lambda>x y z. w x y z / sqrt (tensor_std (nat cout) (nat cin) (nat k) w / rescale default_config))
                   (map_option
                      (\<lambda>v x. v x / sqrt (tensor_std (nat cout) (nat cin) (nat k) w / rescale default_config)) b)"
    by simp
  from m0 have first: "modules m0 ! 0 = Conv1d 1 64 8 4 0 (\<lambda>i j k. real k) (Some (\<lambda>i. 1))"
    and pos: "0 < length (modules m0)"
    by (auto simp: demucs_init_def new_def accepts_positive_def default_config_def
      build_encoder_block_def build_decoder_block_def encoder_channels_def py_int_def pow2_def
      Let_def upt_rec numeral_eq_Suc modules_def sample_initial_def opt_bias_def)
  from all[OF pos first] have
    "modules m ! 0 = Conv1d 1 64 8 4 0
        (\<lambda>i j k. real k / sqrt (tensor_std 64 1 8 (\<lambda>i j k. real k) / (1 / 10)))
        (Some (\<lambda>i. 1 / sqrt (tensor_std 64 1 8 (\<lambda>i j k. real k) / (1 / 10))))"
    by (simp add: default_config_def)
  with m r m0 len first show ?thesis by blast
qed

text \<open>
  The bidirectional default model.
\<close>

theorem rescale_frame_witness:
  "\<exists>m. demucs_init accepts_positive sample_initial (default_config\<lparr>causal := False\<rparr>) = Inr m \<and>
     rnn m = Some (LSTM 1024 1024 2 True True (lstm_initial sample_initial)) \<and>
     linear_proj m = Some (Linear 2048 1024 (linear_weight sample_initial)
                             (Some (linear_bias sample_initial))) \<and>
     rnn (rescale_conv (1 / 10) m) = rnn m \<and> linear_proj (rescale_conv (1 / 10) m) = linear_proj m"
proof -
  from demucs_init_positive[of "default_config\<lparr>causal := False\<rparr>" sample_initial] obtain m where
    m: "demucs_init accepts_positive sample_initial (default_config\<lparr>causal := False\<rparr>) = Inr m"
    by (auto simp: default_config_def)
  from rescale_frame[OF m, of "1 / 10"] m show ?thesis
    by (auto simp: default_config_def encoder_channels_def py_int_def pow2_def opt_bias_def)
qed

section \<open>Shapes: the model and its shape functions agree\<close>

lemma module_shape_ok: "map_sum id shape (apply_module m x) = module_shape m (shape x)"
  by (cases m)
     (simp_all add: shape_def conv1d_def conv1d_shape_def conv_transpose1d_def
        conv_transpose1d_shape_def relu_def glu_def lstm_def linear_map_def)

lemma sequential_shape_ok:
  "map_sum id shape (apply_sequential ms x) = sequential_shape ms (shape x)"
proof (induction ms arbitrary: x)
  case Nil
  show ?case by simp
next
  case (Cons m ms)
  show ?case
  proof (cases "apply_module m x")
    case (Inl e)
    with module_shape_ok[of m x] have "module_shape m (shape x) = Inl e" by simp
    with Inl show ?thesis by simp
  next
    case (Inr y)
    with module_shape_ok[of m x] have "module_shape m (shape x) = Inr (shape y)" by simp
    with Inr Cons[of y] show ?thesis by simp
  qed
qed

lemma encode_levels_shape_ok:
  "map_sum id (\<lambda>p. (shape (fst p), map shape (snd p))) (encode_levels es x skips)
     = encode_levels_shape es (shape x) (map shape skips)"
proof (induction es arbitrary: x skips)
  case Nil
  show ?case by simp
next
  case (Cons e es)
  show ?case
  proof (cases "apply_sequential e x")
    case (Inl err)
    with sequential_shape_ok[of e x] have "sequential_shape e (shape x) = Inl err" by simp
    with Inl show ?thesis by simp
  next
    case (Inr y)
    with sequential_shape_ok[of e x] have "sequential_shape e (shape x) = Inr (shape y)" by simp
    with Inr Cons[of y "skips @ [y]"] show ?thesis by simp
  qed
qed

lemma bottleneck_shape_ok:
  "map_sum id shape (bottleneck m x) = bottleneck_shape m (shape x)"
proof (cases "rnn m")
  case None
  then show ?thesis by (simp add: bottleneck_def bottleneck_shape_def shape_def)
next
  case (Some r)
  note r = this
  have p: "shape (permute201 x) = (d2 x, d0 x, d1 x)" by (simp add: shape_def permute201_def)
  show ?thesis
  proof (cases "apply_module r (permute201 x)")
    case (Inl e)
    with module_shape_ok[of r "permute201 x"] have "module_shape r (d2 x, d0 x, d1 x) = Inl e"
      by (simp add: p)
    with Inl r show ?thesis by (simp add: bottleneck_def bottleneck_shape_def shape_def)
  next
    case (Inr out)
    with module_shape_ok[of r "permute201 x"] have o: "module_shape r (d2 x, d0 x, d1 x) = Inr (shape out)"
      by (simp add: p)
    show ?thesis
    proof (cases "linear_proj m")
      case None
      with Inr r o show ?thesis by (simp add: bottleneck_def bottleneck_shape_def shape_def)
    next
      case (Some l)
      show ?thesis
      proof (cases "apply_module l out")
        case (Inl e)
        with module_shape_ok[of l out] have "module_shape l (shape out) = Inl e" by simp
        with Inl Inr r o Some show ?thesis
          by (simp add: bottleneck_def bottleneck_shape_def) (simp add: shape_def)
      next
        case (Inr out')
        with module_shape_ok[of l out] have "module_shape l (shape out) = Inr (shape out')" by simp
        with Inr \<open>apply_module r (permute201 x) = Inr out\<close> r o Some show ?thesis
          by (simp add: bottleneck_def bottleneck_shape_def) (simp add: shape_def permute120_def)
      qed
    qed
  qed
qed

lemma broadcast_shape_ok:
  "map_sum id shape (broadcast f x y) = broadcast_shape (shape x) (shape y)"
  by (simp add: broadcast_def broadcast_shape_def shape_def split: option.splits)

lemma decode_level_shape_ok:
  "map_sum id (\<lambda>p. (shape (fst p), map shape (snd p))) (decode_level d (x, skips))
     = decode_level_shape d (shape x, map shape skips)"
proof (cases "skips = []")
  case True
  then show ?thesis by (simp add: decode_level_def decode_level_shape_def)
next
  case False
  let ?s = "take_steps (d2 x) (last skips)"
  have ts: "shape ?s = (d0 (last skips), d1 (last skips), min (d2 x) (d2 (last skips)))"
    by (simp add: shape_def take_steps_def)
  have lst: "last (map shape skips) = shape (last skips)" using False by (simp add: last_map)
  have bl: "butlast (map shape skips) = map shape (butlast skips)" by (simp add: map_butlast)
  have pre: "decode_level_shape d (shape x, map shape skips) =
       (case broadcast_shape (shape x) (shape ?s) of
                  Inl e \<Rightarrow> Inl e
                | Inr y \<Rightarrow>
                    (case sequential_shape d y of
                       Inl e \<Rightarrow> Inl e
                     | Inr z \<Rightarrow> Inr (z, map shape (butlast skips))))"
    using False by (simp add: decode_level_shape_def lst shape_def take_steps_def map_butlast cong: sum.case_cong)
  show ?thesis
  proof (cases "broadcast (+) x ?s")
    case (Inl e)
    with broadcast_shape_ok[of "(+)" x ?s] have "broadcast_shape (shape x) (shape ?s) = Inl e" by simp
    with Inl False show ?thesis by (simp add: pre decode_level_def)
  next
    case (Inr y)
    with broadcast_shape_ok[of "(+)" x ?s] have b: "broadcast_shape (shape x) (shape ?s) = Inr (shape y)"
      by simp
    show ?thesis
    proof (cases "apply_sequential d y")
      case (Inl e)
      with sequential_shape_ok[of d y] have "sequential_shape d (shape y) = Inl e" by simp
      with Inl Inr b False show ?thesis by (simp add: pre decode_level_def)
    next
      case (Inr z)
      with sequential_shape_ok[of d y] have "sequential_shape d (shape y) = Inr (shape z)" by simp
      with Inr \<open>broadcast (+) x ?s = Inr y\<close> b False show ?thesis by (simp add: pre decode_level_def)
    qed
  qed
qed

lemma decode_levels_shape_ok:
  "map_sum id (\<lambda>p. (shape (fst p), map shape (snd p))) (decode_levels ds (x, skips))
     = decode_levels_shape ds (shape x, map shape skips)"
proof (induction ds arbitrary: x skips)
  case Nil
  show ?case by simp
next
  case (Cons d ds)
  show ?case
  proof (cases "decode_level d (x, skips)")
    case (Inl e)
    with decode_level_shape_ok[of d x skips]
    have "decode_level_shape d (shape x, map shape skips) = Inl e" by simp
    with Inl show ?thesis by simp
  next
    case (Inr st)
    obtain y sk where st: "st = (y, sk)" by (cases st)
    with Inr decode_level_shape_ok[of d x skips]
    have "decode_level_shape d (shape x, map shape skips) = Inr (shape y, map shape sk)" by simp
    with Inr st Cons[of y sk] show ?thesis by simp
  qed
qed

lemma decode_inputs_shape_ok:
  "map (\<lambda>p. (shape (fst p), shape (snd p))) (decode_inputs ds (x, skips))
     = decode_inputs_shape ds (shape x, map shape skips)"
proof (induction ds arbitrary: x skips)
  case Nil
  show ?case by simp
next
  case (Cons d ds)
  show ?case
  proof (cases "skips = []")
    case True
    then show ?thesis by simp
  next
    case False
    then have lst: "last (map shape skips) = shape (last skips)" by (simp add: last_map)
    show ?thesis
    proof (cases "decode_level d (x, skips)")
      case (Inl e)
      with decode_level_shape_ok[of d x skips]
      have "decode_level_shape d (shape x, map shape skips) = Inl e" by simp
      with Inl False lst show ?thesis by simp
    next
      case (Inr st)
      obtain y sk where st: "st = (y, sk)" by (cases st)
      with Inr decode_level_shape_ok[of d x skips]
      have "decode_level_shape d (shape x, map shape skips) = Inr (shape y, map shape sk)" by simp
      with Inr st Cons[of y sk] False lst show ?thesis by simp
    qed
  qed
qed

lemma upsample_shape:
  assumes "resamples rs up down"
  shows "shape (upsample rs r x) = resample_shape up r (shape x)"
  using assms by (simp add: resamples_def upsample_def resample_shape_def)

lemma downsample_shape:
  assumes "resamples rs up down"
  shows "shape (downsample rs r x) = resample_shape down r (shape x)"
  using assms by (simp add: resamples_def downsample_def resample_shape_def)

lemma forward_encode_shape_ok:
  assumes rs: "resamples rs up down"
  shows "map_sum id encoded_shape (forward_encode rs m x0) = forward_encode_shape up m (shape x0)"
proof -
  let ?x = "mean_dim1 x0"
  let ?a = "d0 x0" and ?t = "d2 x0"
  have "\<exists>std x1. normalise m ?x = Inr (std, x1) \<and> shape x1 = (?a, 1, ?t) \<and>
          shape std = (if normalize_input (hparams m) then (?a, 1, 1) else (1, 1, 1))"
    by (simp add: normalise_def Let_def broadcast_def broadcast_dim_def add_const_def std_dim2_def
        mean_dim1_def shape_def scalar_def)
  then obtain std x1 where
    x1: "normalise m ?x = Inr (std, x1)" and sx1: "shape x1 = (?a, 1, ?t)" and
    sstd: "shape std = (if normalize_input (hparams m) then (?a, 1, 1) else (1, 1, 1))"
    by blast
  have t1: "d2 x1 = ?t" "d0 x1 = ?a" "d1 x1 = 1" using sx1 by (simp_all add: shape_def)
  have sx0: "shape x0 = (d0 x0, d1 x0, d2 x0)" by (simp add: shape_def)
  have unf: "forward_encode rs m x0 =
      (case valid_length (hparams m) (int ?t) of
              Inl e \<Rightarrow> Inl e
            | Inr valid \<Rightarrow>
           (case pad_end x1 (valid - int ?t) of
              Inl e \<Rightarrow> Inl e
            | Inr x \<Rightarrow>
           (case encode_levels (encoder m) (upsample rs (resample (hparams m)) x) [] of
              Inl e \<Rightarrow> Inl e
            | Inr (x, skips) \<Rightarrow>
           (case bottleneck m x of
              Inl e \<Rightarrow> Inl e
            | Inr x \<Rightarrow> Inr (std, ?t, x, skips)))))"
    unfolding forward_encode_def Let_def x1 by (simp add: t1 cong: sum.case_cong)
  show ?thesis
  proof (cases "valid_length (hparams m) (int ?t)")
    case (Inl e)
    then show ?thesis by (simp add: unf forward_encode_shape_def shape_def)
  next
    case (Inr valid)
    note v = this
    show ?thesis
    proof (cases "valid < 0")
      case True
      then show ?thesis using v by (simp add: unf forward_encode_shape_def shape_def pad_end_def t1)
    next
      case False
      define xp where "xp = \<lparr> d0 = d0 x1, d1 = d1 x1, d2 = nat (int (d2 x1) + (valid - int ?t)),
                 entry = (\<lambda>n c i. if i < d2 x1 then entry x1 n c i else 0) \<rparr>"
      have pe: "pad_end x1 (valid - int ?t) = Inr xp"
        using False by (simp add: pad_end_def t1 xp_def)
      have sxp: "shape xp = (?a, 1, nat valid)" by (simp add: xp_def shape_def t1)
      let ?u = "upsample rs (resample (hparams m)) xp"
      have su: "shape ?u = resample_shape up (resample (hparams m)) (?a, 1, nat valid)"
        using upsample_shape[OF rs, of "resample (hparams m)" xp] by (simp add: sxp)
      have pre: "forward_encode_shape up m (shape x0) =
           (case encode_levels_shape (encoder m) (shape ?u) [] of
                     Inl e \<Rightarrow> Inl e
                   | Inr (sh', skips) \<Rightarrow>
                       (case bottleneck_shape m sh' of
                          Inl e \<Rightarrow> Inl e
                        | Inr sh'' \<Rightarrow>
                            Inr (shape std, ?t, sh'', skips)))"
        using False v by (simp add: forward_encode_shape_def sx0 su sstd cong: sum.case_cong)
      show ?thesis
      proof (cases "encode_levels (encoder m) ?u []")
        case (Inl e)
        with encode_levels_shape_ok[of "encoder m" ?u "[]"]
        have "encode_levels_shape (encoder m) (shape ?u) [] = Inl e" by simp
        with Inl show ?thesis by (simp add: unf v pe pre)
      next
        case (Inr p)
        obtain e skips where p: "p = (e, skips)" by (cases p)
        with Inr encode_levels_shape_ok[of "encoder m" ?u "[]"]
        have el: "encode_levels_shape (encoder m) (shape ?u) [] = Inr (shape e, map shape skips)"
          by simp
        show ?thesis
        proof (cases "bottleneck m e")
          case (Inl err)
          with bottleneck_shape_ok[of m e] have "bottleneck_shape m (shape e) = Inl err" by simp
          with Inl Inr p el show ?thesis by (simp add: unf v pe pre)
        next
          case (Inr b)
          with bottleneck_shape_ok[of m e] have "bottleneck_shape m (shape e) = Inr (shape b)" by simp
          with Inr \<open>encode_levels (encoder m) ?u [] = Inr p\<close> p el show ?thesis
            by (simp add: unf v pe pre encoded_shape_def)
        qed
      qed
    qed
  qed
qed

lemma forward_signal_shape_ok:
  assumes rs: "resamples rs up down"
  shows "map_sum id shape (forward_signal rs m x0) = forward_shape up down m (shape x0)"
proof (cases "forward_encode rs m x0")
  case (Inl e)
  with forward_encode_shape_ok[OF rs, of m x0]
  have "forward_encode_shape up m (shape x0) = Inl e" by simp
  with Inl show ?thesis by (simp add: forward_signal_def forward_shape_def)
next
  case (Inr q)
  obtain std n x skips where q: "q = (std, n, x, skips)" by (cases q)
  with Inr forward_encode_shape_ok[OF rs, of m x0]
  have fe: "forward_encode_shape up m (shape x0) = Inr (shape std, n, shape x, map shape skips)"
    by (simp add: encoded_shape_def)
  show ?thesis
  proof (cases "decode_levels (decoder m) (x, skips)")
    case (Inl e)
    with decode_levels_shape_ok[of "decoder m" x skips]
    have "decode_levels_shape (decoder m) (shape x, map shape skips) = Inl e" by simp
    with Inl Inr q fe show ?thesis by (simp add: forward_signal_def forward_shape_def)
  next
    case (Inr st)
    obtain y sk where st: "st = (y, sk)" by (cases st)
    with Inr decode_levels_shape_ok[of "decoder m" x skips]
    have dl: "decode_levels_shape (decoder m) (shape x, map shape skips) = Inr (shape y, map shape sk)"
      by simp
    let ?d = "downsample rs (resample (hparams m)) y"
    have sd: "shape ?d = resample_shape down (resample (hparams m)) (shape y)"
      by (rule downsample_shape[OF rs])
    have st2: "shape (take_steps n ?d) = (d0 ?d, d1 ?d, min n (d2 ?d))"
      by (simp add: shape_def take_steps_def)
    have "map_sum id shape (broadcast (*) std (take_steps n ?d))
            = broadcast_shape (shape std) (d0 ?d, d1 ?d, min n (d2 ?d))"
      using broadcast_shape_ok[of "(*)" std "take_steps n ?d"] by (simp add: st2)
    moreover have "forward_shape up down m (shape x0) =
       (case shape ?d of (a, c, t) \<Rightarrow> broadcast_shape (shape std) (a, c, min n t))"
      by (simp add: forward_shape_def fe dl sd)
    moreover have "forward_signal rs m x0 = broadcast (*) std (take_steps n ?d)"
      using \<open>forward_encode rs m x0 = Inr q\<close> q Inr st by (simp add: forward_signal_def)
    ultimately show ?thesis by (simp add: shape_def)
  qed
qed

section \<open>The decoder input and its skip\<close>

lemma conv1d_shape_Inr:
  assumes "conv1d_shape cin cout k s p sh = Inr sh'"
  shows "1 \<le> k \<and> 1 \<le> s \<and> 0 \<le> p \<and> k \<le> int (steps3 sh) + 2 * p \<and>
         int (steps3 sh') = (int (steps3 sh) + 2 * p - k) div s + 1 \<and>
         1 \<le> (int (steps3 sh) + 2 * p - k) div s + 1"
proof -
  obtain a c t where sh: "sh = (a, c, t)" by (cases sh)
  from assms have c: "1 \<le> k" "1 \<le> s" "0 \<le> p" "k \<le> int t + 2 * p"
    and r: "sh' = (a, nat cout, nat ((int t + 2 * p - k) div s + 1))"
    by (auto simp: conv1d_shape_def sh split: if_splits)
  have "0 \<le> (int t + 2 * p - k) div s" using c by (simp add: pos_imp_zdiv_nonneg_iff)
  then show ?thesis using c r by (simp add: steps3_def sh)
qed

lemma conv_transpose1d_shape_Inr:
  assumes "conv_transpose1d_shape cin cout k s sh = Inr sh'" "1 \<le> steps3 sh"
  shows "int (steps3 sh') = (int (steps3 sh) - 1) * s + k"
proof -
  obtain a c t where sh: "sh = (a, c, t)" by (cases sh)
  from assms(1) have c: "1 \<le> k" "1 \<le> s"
    and r: "sh' = (a, nat cout, nat ((int t - 1) * s + k))"
    by (auto simp: conv_transpose1d_shape_def sh split: if_splits)
  have "0 \<le> (int t - 1) * s" using c assms(2) by (simp add: steps3_def sh)
  then show ?thesis using c r by (simp add: steps3_def sh)
qed

lemma glu_shape_steps: "module_shape GLU sh = Inr sh' \<Longrightarrow> steps3 sh' = steps3 sh"
  by (cases sh) (auto simp: steps3_def split: if_splits)

lemma act_shape: "act = ReLU \<or> act = Identity \<Longrightarrow> module_shape act sh = Inr sh"
  by auto

lemma encoder_block_shape:
  assumes "encoder_block cfg e" "sequential_shape e sh = Inr sh'"
  shows "link cfg (steps3 sh) (steps3 sh')"
proof -
  from assms(1) obtain cin cout w b cin' cout' w' b' act where
    e: "e = [Conv1d cin cout (kernel_conv cfg) (stride_conv cfg) 0 w b, act,
             Conv1d cin' cout' (kernel_glu cfg) (stride_glu cfg) (kernel_glu cfg div 2) w' b',
             GLU]" and act: "act = ReLU \<or> act = Identity"
    unfolding encoder_block_def by blast
  from assms(2) obtain s1 s2 where
    s1: "conv1d_shape cin cout (kernel_conv cfg) (stride_conv cfg) 0 sh = Inr s1" and
    s2: "conv1d_shape cin' cout' (kernel_glu cfg) (stride_glu cfg) (kernel_glu cfg div 2) s1 = Inr s2" and
    s3: "module_shape GLU s2 = Inr sh'"
    unfolding e using act_shape[OF act] by (auto split: sum.splits)
  note A = conv1d_shape_Inr[OF s1] and B = conv1d_shape_Inr[OF s2] and C = glu_shape_steps[OF s3]
  from A have a1: "int (steps3 s1) = conv_len cfg (int (steps3 sh))"
    by (simp add: conv_len_def)
  from B have "int (steps3 s2) = glu_len cfg (int (steps3 s1))"
    by (simp add: glu_len_def)
  with A B C a1 show ?thesis
    by (simp add: link_def conv_len_def)
qed

lemma decoder_block_shape:
  assumes "decoder_block cfg d" "sequential_shape d sh = Inr sh'"
  shows "1 \<le> stride_conv cfg \<and> 1 \<le> stride_glu cfg \<and> 1 \<le> kernel_glu cfg \<and>
         int (steps3 sh') = dec_len cfg (int (steps3 sh))"
proof -
  from assms(1) obtain cin cout w b cin' cout' w' b' act where
    d: "d = [Conv1d cin cout (kernel_glu cfg) (stride_glu cfg) (kernel_glu cfg div 2) w b, GLU,
             ConvTranspose1d cin' cout' (kernel_conv cfg) (stride_conv cfg) w' b', act]"
    and act: "act = ReLU \<or> act = Identity"
    unfolding decoder_block_def by blast
  from assms(2) obtain s1 s2 where
    s1: "conv1d_shape cin cout (kernel_glu cfg) (stride_glu cfg) (kernel_glu cfg div 2) sh = Inr s1" and
    s2: "module_shape GLU s1 = Inr s2" and
    s3: "conv_transpose1d_shape cin' cout' (kernel_conv cfg) (stride_conv cfg) s2 = Inr sh'"
    unfolding d using act_shape[OF act] by (auto split: sum.splits)
  note A = conv1d_shape_Inr[OF s1] and B = glu_shape_steps[OF s2]
  from A B have g: "int (steps3 s2) = glu_len cfg (int (steps3 sh))" "1 \<le> steps3 s2"
    by (simp_all add: glu_len_def)
  from s3 have "1 \<le> stride_conv cfg"
    by (cases s2) (auto simp: conv_transpose1d_shape_def split: if_splits)
  with conv_transpose1d_shape_Inr[OF s3 g(2)] g A show ?thesis
    by (simp add: dec_len_def)
qed

lemma encode_levels_chained:
  assumes "\<forall>e\<in>set es. encoder_block cfg e"
    and "encode_levels_shape es sh acc = Inr (sh', skips)"
  shows "\<exists>ys. skips = acc @ ys \<and> chained cfg (steps3 sh) (map steps3 ys) \<and>
              steps3 sh' = last (steps3 sh # map steps3 ys)"
  using assms
proof (induction es arbitrary: sh acc)
  case Nil
  then show ?case by simp
next
  case (Cons e es)
  from Cons.prems(2) obtain s1 where
    s1: "sequential_shape e sh = Inr s1" and
    rest: "encode_levels_shape es s1 (acc @ [s1]) = Inr (sh', skips)"
    by (auto split: sum.splits)
  from Cons.prems(1) have eb: "encoder_block cfg e" and all: "\<forall>e\<in>set es. encoder_block cfg e"
    by simp_all
  from Cons.IH[OF all rest] obtain ys where
    ys: "skips = (acc @ [s1]) @ ys" "chained cfg (steps3 s1) (map steps3 ys)"
        "steps3 sh' = last (steps3 s1 # map steps3 ys)"
    by blast
  have "skips = acc @ (s1 # ys)" using ys(1) by simp
  moreover have "chained cfg (steps3 sh) (map steps3 (s1 # ys))"
    using encoder_block_shape[OF eb s1] ys(2) by simp
  moreover have "steps3 sh' = last (steps3 sh # map steps3 (s1 # ys))"
    using ys(3) by simp
  ultimately show ?case by blast
qed

lemma chained_append:
  "chained cfg t (xs @ ys) = (chained cfg t xs \<and> chained cfg (last (t # xs)) ys)"
  by (induction xs arbitrary: t) auto

lemma chained_pos:
  assumes "chained cfg t ys" "y \<in> set ys"
  shows "1 \<le> y"
  using assms
proof (induction ys arbitrary: t)
  case Nil
  then show ?case by simp
next
  case (Cons z zs)
  from Cons.prems(1) have l: "link cfg t z" and c: "chained cfg z zs" by simp_all
  have "0 \<le> (conv_len cfg (int t) + 2 * (kernel_glu cfg div 2) - kernel_glu cfg)"
    using l unfolding link_def by linarith
  then have "0 \<le> (conv_len cfg (int t) + 2 * (kernel_glu cfg div 2) - kernel_glu cfg)
                  div stride_glu cfg"
    using l unfolding link_def by (simp add: pos_imp_zdiv_nonneg_iff)
  then have "1 \<le> z" using l unfolding link_def glu_len_def by linarith
  with Cons show ?case by auto
qed

lemma glu_len_mono:
  assumes "1 \<le> stride_glu cfg" "a \<le> b"
  shows "glu_len cfg a \<le> glu_len cfg b"
  using assms unfolding glu_len_def by (simp add: zdiv_mono1)

lemma glu_len_le:
  assumes "1 \<le> stride_glu cfg" "1 \<le> kernel_glu cfg"
    and "odd (kernel_glu cfg) \<or> stride_glu cfg \<noteq> 1" and "1 \<le> n"
  shows "glu_len cfg n \<le> n"
proof (cases "odd (kernel_glu cfg)")
  case True
  then have e: "n + 2 * (kernel_glu cfg div 2) - kernel_glu cfg = n - 1" by presburger
  have "glu_len cfg n = (n - 1) div stride_glu cfg + 1"
    unfolding glu_len_def e by (rule refl)
  moreover have "(n - 1) div stride_glu cfg \<le> (n - 1) div 1"
    using assms(1,4) by (intro zdiv_mono2) simp_all
  ultimately show ?thesis by simp
next
  case False
  then have e: "n + 2 * (kernel_glu cfg div 2) - kernel_glu cfg = n" by presburger
  have g: "glu_len cfg n = n div stride_glu cfg + 1"
    unfolding glu_len_def e by (rule refl)
  from False assms have s2: "2 \<le> stride_glu cfg" by simp
  have "n div stride_glu cfg \<le> n div 2"
    using s2 assms(4) by (intro zdiv_mono2) simp_all
  moreover have "n div 2 \<le> n - 1" using assms(4) by presburger
  ultimately show ?thesis using g by simp
qed

lemma dec_len_le:
  assumes l: "link cfg y' y" and g: "odd (kernel_glu cfg) \<or> stride_glu cfg \<noteq> 1"
    and le: "tx \<le> int y" and y: "1 \<le> y"
  shows "dec_len cfg tx \<le> int y'"
proof -
  from l have s: "1 \<le> stride_conv cfg" and sg: "1 \<le> stride_glu cfg" and kg: "1 \<le> kernel_glu cfg"
    and k: "kernel_conv cfg \<le> int y'" and c: "1 \<le> conv_len cfg (int y')"
    and yy: "int y = glu_len cfg (conv_len cfg (int y'))"
    unfolding link_def by simp_all
  have "glu_len cfg tx \<le> glu_len cfg (int y)" by (rule glu_len_mono[OF sg le])
  also have "\<dots> \<le> int y" using y by (intro glu_len_le[OF sg kg g]) simp
  also have "\<dots> \<le> conv_len cfg (int y')" unfolding yy by (rule glu_len_le[OF sg kg g c])
  finally have "glu_len cfg tx - 1 \<le> (int y' - kernel_conv cfg) div stride_conv cfg"
    by (simp add: conv_len_def)
  then have "(glu_len cfg tx - 1) * stride_conv cfg
               \<le> ((int y' - kernel_conv cfg) div stride_conv cfg) * stride_conv cfg"
    using s by (intro mult_right_mono) simp_all
  also have "\<dots> \<le> int y' - kernel_conv cfg"
    using s by (metis div_mult_mod_eq le_add_same_cancel1 pos_mod_sign less_le_trans zero_less_one)
  finally show ?thesis by (simp add: dec_len_def)
qed

lemma decode_level_shape_Inr:
  assumes "decode_level_shape d (sh, skips) = Inr st'" "decoder_block cfg d"
    and "steps3 sh \<le> steps3 (last skips)"
  shows "skips \<noteq> [] \<and> (\<exists>z. st' = (z, butlast skips) \<and>
            int (steps3 z) = dec_len cfg (int (steps3 sh)))"
proof -
  obtain a c t where sh: "sh = (a, c, t)" by (cases sh)
  obtain a' c' t' where l: "last skips = (a', c', t')" by (cases "last skips")
  from assms(3) have m: "min t t' = t" by (simp add: steps3_def sh l)
  from assms(1) have ne: "skips \<noteq> []" by (auto simp: decode_level_shape_def split: if_splits)
  from assms(1) ne obtain y z where
    y: "broadcast_shape (a, c, t) (a', c', t) = Inr y" and
    z: "sequential_shape d y = Inr z" and st: "st' = (z, butlast skips)"
    by (auto simp: decode_level_shape_def sh l m split: sum.splits)
  from y have "steps3 y = t"
    by (auto simp: broadcast_shape_def broadcast_dim_def steps3_def split: option.splits if_splits)
  with decoder_block_shape[OF assms(2) z] st ne show ?thesis by (simp add: sh steps3_def)
qed

lemma decode_inputs_shape_le:
  assumes "\<forall>d\<in>set ds. decoder_block cfg d"
    and g: "odd (kernel_glu cfg) \<or> stride_glu cfg \<noteq> 1"
    and "chained cfg t0 (map steps3 skips)"
    and "skips \<noteq> [] \<longrightarrow> steps3 sh \<le> steps3 (last skips)"
  shows "\<forall>p\<in>set (decode_inputs_shape ds (sh, skips)). steps3 (fst p) \<le> steps3 (snd p)"
  using assms(1,3,4)
proof (induction ds arbitrary: sh skips)
  case Nil
  show ?case by simp
next
  case (Cons d ds)
  show ?case
  proof (cases "skips = []")
    case True
    then show ?thesis by simp
  next
    case False
    with Cons.prems(3) have le: "steps3 sh \<le> steps3 (last skips)" by simp
    from Cons.prems(1) have db: "decoder_block cfg d" and all: "\<forall>d\<in>set ds. decoder_block cfg d"
      by simp_all
    show ?thesis
    proof (cases "decode_level_shape d (sh, skips)")
      case (Inl e)
      with False le show ?thesis by simp
    next
      case (Inr st')
      from decode_level_shape_Inr[OF Inr db le] obtain z where
        st: "st' = (z, butlast skips)" and z: "int (steps3 z) = dec_len cfg (int (steps3 sh))"
        by blast
      from False have sk: "skips = butlast skips @ [last skips]" by simp
      have ch: "chained cfg t0 (map steps3 (butlast skips) @ [steps3 (last skips)])"
        using Cons.prems(2) sk by (metis list.simps(8,9) map_append)
      then have ch1: "chained cfg t0 (map steps3 (butlast skips))"
        by (simp add: chained_append)
      have pos: "1 \<le> steps3 (last skips)"
        using chained_pos[OF ch, of "steps3 (last skips)"] by simp
      have nx: "steps3 z \<le> steps3 (last (butlast skips))" if ne: "butlast skips \<noteq> []"
      proof -
        from ne have "last (t0 # map steps3 (butlast skips)) = steps3 (last (butlast skips))"
          by (simp add: last_map)
        with ch have "link cfg (steps3 (last (butlast skips))) (steps3 (last skips))"
          by (simp add: chained_append)
        from dec_len_le[OF this g _ pos, of "int (steps3 sh)"] le z show ?thesis by simp
      qed
      from Cons.IH[OF all ch1, of z] nx
      have "\<forall>p\<in>set (decode_inputs_shape ds (z, butlast skips)). steps3 (fst p) \<le> steps3 (snd p)"
        by blast
      with Inr st False le show ?thesis by simp
    qed
  qed
qed

lemma build_encoder_block_is_block:
  assumes "build_encoder_block accepts init cfg level use_relu = Inr eb"
  shows "encoder_block cfg eb \<and> encoder_block cfg (map (rescale_module r) eb)"
  using assms
  by (auto simp: build_encoder_block_def encoder_block_def Let_def new_def
      split: sum.splits if_splits)

lemma build_decoder_block_is_block:
  assumes "build_decoder_block accepts init cfg level use_relu = Inr db"
  shows "decoder_block cfg db \<and> decoder_block cfg (map (rescale_module r) db)"
  using assms
  by (auto simp: build_decoder_block_def decoder_block_def Let_def new_def
      split: sum.splits if_splits)

lemma constructed_blocks:
  assumes "demucs_init accepts init cfg = Inr m"
  shows "(\<forall>e\<in>set (encoder m). encoder_block cfg e) \<and> (\<forall>d\<in>set (decoder m). decoder_block cfg d)"
proof -
  let ?idx = "map int [0..<nat (depth cfg)]"
  from construct_Inr[OF assms] obtain es ds where
    bb: "build_blocks accepts init cfg ?idx = Inr (es, ds)" and
    enc: "encoder m = (if rescale cfg \<noteq> 0 then map (map (rescale_module (rescale cfg))) es else es)" and
    dec: "decoder m = (if rescale cfg \<noteq> 0 then map (map (rescale_module (rescale cfg))) ds else ds)"
    by blast
  note B = build_blocks_Inr[OF bb]
  have e: "encoder_block cfg e \<and> encoder_block cfg (map (rescale_module (rescale cfg)) e)"
    if "e \<in> set es" for e
  proof -
    from that obtain k where k: "k < length es" "es ! k = e" by (auto simp: in_set_conv_nth)
    with B have "build_encoder_block accepts init cfg (?idx ! k) (original cfg \<or> ?idx ! k \<noteq> 0) = Inr e"
      by (metis length_map)
    then show ?thesis by (rule build_encoder_block_is_block)
  qed
  have d: "decoder_block cfg d \<and> decoder_block cfg (map (rescale_module (rescale cfg)) d)"
    if "d \<in> set ds" for d
  proof -
    from that obtain k where k: "k < length ds" "ds ! k = d" by (auto simp: in_set_conv_nth)
    with B have "build_decoder_block accepts init cfg (depth cfg - ?idx ! k - 1)
                (depth cfg - ?idx ! k - 1 > 0) = Inr d"
      by (metis length_map)
    then show ?thesis by (rule build_decoder_block_is_block)
  qed
  show ?thesis using e d enc dec by auto
qed

lemma constructed_bottleneck_steps:
  assumes "demucs_init accepts init cfg = Inr m" "bottleneck_shape m sh = Inr sh'"
  shows "steps3 sh' = steps3 sh"
proof -
  obtain a c t where sh: "sh = (a, c, t)" by (cases sh)
  from construct_Inr[OF assms(1)] have
    rn: "rnn m = Some (LSTM (encoder_channels cfg) (encoder_channels cfg) 2 (\<not> causal cfg)
                      (use_bias cfg) (lstm_initial init))" and
    li: "linear_proj m = Some (if \<not> causal cfg
                        then Linear (2 * encoder_channels cfg) (encoder_channels cfg)
                               (linear_weight init) (opt_bias (use_bias cfg) (linear_bias init))
                        else Identity)"
    by blast+
  from assms(2) show ?thesis
    by (auto simp: bottleneck_shape_def sh rn li steps3_def split: if_splits sum.splits)
qed

lemma forward_encode_Inr:
  assumes "forward_encode rs m x0 = Inr (std, n, x, skips)"
  shows "\<exists>u e. encode_levels (encoder m) u [] = Inr (e, skips) \<and> bottleneck m e = Inr x"
  using assms
  by (auto simp: forward_encode_def Let_def split: sum.splits if_splits prod.splits)

lemma steps3_shape: "steps3 (shape x) = d2 x"
  by (simp add: steps3_def shape_def)

lemma decoder_levels_le:
  assumes init: "demucs_init accepts init cfg = Inr m"
    and g: "odd (kernel_glu cfg) \<or> stride_glu cfg \<noteq> 1"
    and fe: "forward_encode rs m x0 = Inr (std, n, x, skips)"
  shows "\<forall>p\<in>set (decode_inputs (decoder m) (x, skips)). d2 (fst p) \<le> d2 (snd p)"
proof -
  from forward_encode_Inr[OF fe] obtain u e where
    el: "encode_levels (encoder m) u [] = Inr (e, skips)" and bn: "bottleneck m e = Inr x"
    by blast
  from el encode_levels_shape_ok[of "encoder m" u "[]"]
  have els: "encode_levels_shape (encoder m) (shape u) [] = Inr (shape e, map shape skips)"
    by simp
  from bn bottleneck_shape_ok[of m e]
  have bns: "bottleneck_shape m (shape e) = Inr (shape x)" by simp
  note cb = constructed_blocks[OF init]
  from encode_levels_chained[OF cb[THEN conjunct1] els] obtain ys where
    ys: "map shape skips = ys" and ch: "chained cfg (steps3 (shape u)) (map steps3 ys)"
    and la: "steps3 (shape e) = last (steps3 (shape u) # map steps3 ys)"
    by auto
  have xe: "steps3 (shape x) = steps3 (shape e)"
    by (rule constructed_bottleneck_steps[OF init bns])
  have top: "map shape skips \<noteq> [] \<longrightarrow> steps3 (shape x) \<le> steps3 (last (map shape skips))"
    using la xe ys by (auto simp: last_map)
  have "\<forall>p\<in>set (decode_inputs_shape (decoder m) (shape x, map shape skips)).
          steps3 (fst p) \<le> steps3 (snd p)"
    using ch ys by (intro decode_inputs_shape_le[OF cb[THEN conjunct2] g _ top]) simp
  then have "\<forall>p\<in>set (map (\<lambda>p. (shape (fst p), shape (snd p))) (decode_inputs (decoder m) (x, skips))).
          steps3 (fst p) \<le> steps3 (snd p)"
    by (simp only: decode_inputs_shape_ok)
  then show ?thesis by (simp add: steps3_shape)
qed

text \<open>
  A condition under which the decoder loop keeps its invariant: when \<open>kernel_glu\<close> is odd
  or \<open>stride_glu\<close> is not 1, no gated convolution of a constructed model lengthens its
  input, and in every call of \<open>forward\<close>, at every pass of the decoder loop that is
  entered, the decoder input has at most as many time steps as the skip popped for it.
  The condition is sufficient, not necessary.
\<close>

lemma skip_covers_decoder_input:
  assumes "demucs_init accepts init cfg = Inr m"
    and "odd (kernel_glu cfg) \<or> stride_glu cfg \<noteq> 1"
  shows "\<forall>p\<in>set (decoder_inputs rs m inp). d2 (fst p) \<le> d2 (snd p)"
proof (cases inp)
  case (Axes1 n f)
  then show ?thesis by (simp add: decoder_inputs_def)
next
  case (Axes2 b t f)
  show ?thesis
  proof (cases "forward_encode rs m (unsqueeze1 b t f)")
    case (Inl e)
    with Axes2 show ?thesis by (simp add: decoder_inputs_def)
  next
    case (Inr q)
    obtain std n x skips where q: "q = (std, n, x, skips)" by (cases q)
    from decoder_levels_le[OF assms Inr[unfolded q]] Axes2 Inr q show ?thesis
      by (simp add: decoder_inputs_def)
  qed
next
  case (Axes3 x0)
  show ?thesis
  proof (cases "forward_encode rs m x0")
    case (Inl e)
    with Axes3 show ?thesis by (simp add: decoder_inputs_def)
  next
    case (Inr q)
    obtain std n x skips where q: "q = (std, n, x, skips)" by (cases q)
    from decoder_levels_le[OF assms Inr[unfolded q]] Axes3 Inr q show ?thesis
      by (simp add: decoder_inputs_def)
  qed
qed

section \<open>Calls on concrete signals\<close>

lemma plain_resamples: "resamples plain_resampler up2 down2"
  by (simp add: resamples_def plain_resampler_def up2_def down2_def shape_def)

lemma decoder_inputs_shape_ok:
  assumes rs: "resamples rs up down"
  shows "map (\<lambda>p. (shape (fst p), shape (snd p))) (decoder_inputs rs m (Axes3 x))
           = decoder_inputs_shape up m (shape x)"
proof (cases "forward_encode rs m x")
  case (Inl e)
  with forward_encode_shape_ok[OF rs, of m x]
  have "forward_encode_shape up m (shape x) = Inl e" by simp
  with Inl show ?thesis by (simp add: decoder_inputs_def decoder_inputs_shape_def)
next
  case (Inr q)
  obtain std n y skips where q: "q = (std, n, y, skips)" by (cases q)
  with Inr forward_encode_shape_ok[OF rs, of m x]
  have "forward_encode_shape up m (shape x) = Inr (shape std, n, shape y, map shape skips)"
    by (simp add: encoded_shape_def)
  with Inr q show ?thesis
    by (simp add: decoder_inputs_def decoder_inputs_shape_def decode_inputs_shape_ok)
qed

lemma decoder_trace_shape:
  assumes rs: "resamples rs up down"
  shows "decoder_trace accepts init rs cfg (Axes3 x) =
     (case demucs_init accepts init cfg of
        Inl e \<Rightarrow> []
      | Inr m \<Rightarrow> map (\<lambda>p. (steps3 (fst p), steps3 (snd p))) (decoder_inputs_shape up m (shape x)))"
proof (cases "demucs_init accepts init cfg")
  case (Inl e)
  then show ?thesis by (simp add: decoder_trace_def)
next
  case (Inr m)
  have "map (\<lambda>p. (d2 (fst p), d2 (snd p))) (decoder_inputs rs m (Axes3 x))
      = map (\<lambda>p. (steps3 (fst p), steps3 (snd p)))
          (map (\<lambda>p. (shape (fst p), shape (snd p))) (decoder_inputs rs m (Axes3 x)))"
    by (simp add: steps3_shape)
  then show ?thesis using Inr by (simp add: decoder_trace_def decoder_inputs_shape_ok[OF rs])
qed

lemma demucs_call_shape:
  assumes rs: "resamples rs up down"
  shows "map_sum id shape (demucs_call accepts init rs cfg (Axes3 x)) =
     (case demucs_init accepts init cfg of
        Inl e \<Rightarrow> Inl e
      | Inr m \<Rightarrow> forward_shape up down m (shape x))"
  by (cases "demucs_init accepts init cfg")
     (simp_all add: demucs_call_def forward_signal_shape_ok[OF rs])

lemma upt_small: "[0..<5] = [0, 1, 2, 3, 4]" "[0..<2] = [0, 1]" "[0..<1] = [0]"
  by (simp_all add: upt_rec)

lemma encoder_lengths_numeral:
  "encoder_lengths cfg (numeral k) len =
     (case encoder_length cfg len of
        Inl e \<Rightarrow> Inl e
      | Inr len' \<Rightarrow> encoder_lengths cfg (pred_numeral k) len')"
  by (simp add: numeral_eq_Suc)

lemma decoder_lengths_numeral:
  "decoder_lengths cfg (numeral k) len =
     decoder_lengths cfg (pred_numeral k) (decoder_length cfg len)"
  by (simp add: numeral_eq_Suc)

lemmas init_evals = demucs_init_def default_config_def new_def accepts_positive_def
      build_encoder_block_def build_decoder_block_def encoder_channels_def py_int_def pow2_def
      Let_def upt_small opt_bias_def rescale_conv_def

lemmas shape_evals = forward_shape_def forward_encode_shape_def decoder_inputs_shape_def
      valid_length_def encoder_length_def ceil_div_def decoder_length_def
      encoder_lengths_numeral decoder_lengths_numeral resample_shape_def up2_def down2_def
      conv1d_shape_def conv_transpose1d_shape_def bottleneck_shape_def broadcast_shape_def
      broadcast_dim_def decode_level_shape_def shape_def silence_def steps3_def


text \<open>
  Claim C1 at the input where the code fails it: the model with \<open>kernel_glu = 3\<close> and
  every other argument at its default, on a signal of one channel and 3000 samples.
  \<open>valid_length(3000)\<close> is 2389, the padding by \<open>2389 - 3000\<close> cuts the signal, and
  \<open>forward\<close> returns 2389 samples.
\<close>

theorem forward_crops_signal:
  "map_sum id shape
     (demucs_call accepts_positive sample_initial plain_resampler
        (default_config\<lparr>kernel_glu := 3\<rparr>) (Axes3 (silence 1 1 3000))) = Inr (1, 1, 2389)"
proof -
  have "\<exists>m. demucs_init accepts_positive sample_initial (default_config\<lparr>kernel_glu := 3\<rparr>) = Inr m \<and>
     forward_shape up2 down2 m (shape (silence 1 1 3000)) = Inr (1, 1, 2389)"
    by (simp add: init_evals shape_evals)
  then obtain m where
    "demucs_init accepts_positive sample_initial (default_config\<lparr>kernel_glu := 3\<rparr>) = Inr m"
    "forward_shape up2 down2 m (shape (silence 1 1 3000)) = Inr (1, 1, 2389)"
    by (elim exE conjE)
  then show ?thesis
    unfolding demucs_call_shape[OF plain_resamples] by simp
qed

text \<open>
  Claim C6 at the input where the code fails it: the model with \<open>kernel_glu = 2\<close> and
  every other argument at its default constructs; its gated convolutions, padded by
  \<open>kernel_glu // 2 = 1\<close> on both sides, return one step more than they are given. On a
  signal of one channel and 3000 samples the decoder loop is entered twice: with 11
  steps against a skip of 11, and with 52 steps against a skip of 45. There the slice
  \<open>skip[..., :52]\<close> is the whole skip, shorter than the decoder input, the sum of line 332
  raises, and \<open>forward\<close> returns no signal.
\<close>

theorem decoder_input_longer_than_skip:
  "decoder_trace accepts_positive sample_initial plain_resampler
     (default_config\<lparr>kernel_glu := 2\<rparr>) (Axes3 (silence 1 1 3000)) = [(11, 11), (52, 45)] \<and>
   map_sum id shape
     (demucs_call accepts_positive sample_initial plain_resampler
        (default_config\<lparr>kernel_glu := 2\<rparr>) (Axes3 (silence 1 1 3000))) = Inl RuntimeError"
proof -
  have "\<exists>m. demucs_init accepts_positive sample_initial (default_config\<lparr>kernel_glu := 2\<rparr>) = Inr m \<and>
     map (\<lambda>p. (steps3 (fst p), steps3 (snd p)))
       (decoder_inputs_shape up2 m (shape (silence 1 1 3000))) = [(11, 11), (52, 45)] \<and>
     forward_shape up2 down2 m (shape (silence 1 1 3000)) = Inl RuntimeError"
    by (simp add: init_evals shape_evals)
  then obtain m where
    "demucs_init accepts_positive sample_initial (default_config\<lparr>kernel_glu := 2\<rparr>) = Inr m"
    "map (\<lambda>p. (steps3 (fst p), steps3 (snd p)))
       (decoder_inputs_shape up2 m (shape (silence 1 1 3000))) = [(11, 11), (52, 45)]"
    "forward_shape up2 down2 m (shape (silence 1 1 3000)) = Inl RuntimeError"
    by (elim exE conjE)
  then show ?thesis
    unfolding decoder_trace_shape[OF plain_resamples] demucs_call_shape[OF plain_resamples] by simp
qed

text \<open>
  The default model on 3000 samples: all five decoder levels are entered, and at each
  the decoder input is no longer than its skip.
\<close>

lemma skip_covers_decoder_input_default:
  "\<exists>m. demucs_init accepts_positive sample_initial default_config = Inr m \<and>
       length (decoder_inputs plain_resampler m (Axes3 (silence 1 1 3000))) = 5 \<and>
       list_all (\<lambda>p. d2 (fst p) \<le> d2 (snd p))
         (decoder_inputs plain_resampler m (Axes3 (silence 1 1 3000)))"
proof -
  have "\<exists>m. demucs_init accepts_positive sample_initial default_config = Inr m \<and>
     length (decoder_inputs_shape up2 m (shape (silence 1 1 3000))) = 5"
    by (simp add: init_evals shape_evals)
  then obtain m where
    m: "demucs_init accepts_positive sample_initial default_config = Inr m" and
    l: "length (decoder_inputs_shape up2 m (shape (silence 1 1 3000))) = 5"
    by (elim exE conjE)
  have "length (decoder_inputs plain_resampler m (Axes3 (silence 1 1 3000)))
      = length (map (\<lambda>p. (shape (fst p), shape (snd p)))
          (decoder_inputs plain_resampler m (Axes3 (silence 1 1 3000))))"
    by simp
  also have "\<dots> = 5" unfolding decoder_inputs_shape_ok[OF plain_resamples] by (rule l)
  finally have len: "length (decoder_inputs plain_resampler m (Axes3 (silence 1 1 3000))) = 5" .
  have odd: "odd (kernel_glu default_config) \<or> stride_glu default_config \<noteq> 1"
    by (simp add: default_config_def)
  from skip_covers_decoder_input[OF m odd, of plain_resampler "Axes3 (silence 1 1 3000)"]
  have "list_all (\<lambda>p. d2 (fst p) \<le> d2 (snd p))
         (decoder_inputs plain_resampler m (Axes3 (silence 1 1 3000)))"
    by (simp add: list_all_iff)
  with m len show ?thesis by (intro exI conjI)
qed


section \<open>The bottleneck of a causal model\<close>

text \<open>The definitions that a call of the model of one level unfolds to.\<close>

lemma upt1: "[0..<1] = [0]" by (simp add: upt_rec)

lemmas value_evals = demucs_call_def demucs_init_def default_config_def one_level_config_def
      new_def accepts_positive_def
      build_encoder_block_def build_decoder_block_def encoder_channels_def py_int_def pow2_def
      Let_def upt1 opt_bias_def synthetic_initial_def
      forward_signal_def forward_encode_def normalise_def mean_dim1_def scalar_def valid_length_def
      encoder_length_def ceil_div_def decoder_length_def pad_end_def upsample_def downsample_def
      conv1d_def glu_def relu_def conv_transpose1d_def bottleneck_def permute201_def permute120_def
      lstm_def broadcast_def broadcast_dim_def take_steps_def decode_level_def
      padded_def bias_at_def sigmoid_def pick_def lstm_layer_def lstm_cell_def lstm_gate_def
      samples_def scale_def add_const_def std_dim2_def

text \<open>
  The state of an LSTM layer after \<open>t\<close> steps is computed from the first \<open>t\<close> inputs, and
  so is the output of a stack of unidirectional layers at every step before \<open>t\<close>.
\<close>

lemma lstm_run_prefix:
  "(\<forall>i<t. xs i = xs' i) \<Longrightarrow> lstm_run cell xs t = lstm_run cell xs' t"
  by (induction t) simp_all

lemma lstm_layer_prefix:
  assumes "\<forall>i<t. xs i = xs' i"
  shows "\<forall>i<t. lstm_layer bias w False l nin hid len xs i =
               lstm_layer bias w False l nin hid len' xs' i"
proof (intro allI impI)
  fix i assume i: "i < t"
  have "lstm_run (lstm_cell bias w l False nin hid) xs (Suc i) =
        lstm_run (lstm_cell bias w l False nin hid) xs' (Suc i)"
    using assms i by (intro lstm_run_prefix) simp
  then show "lstm_layer bias w False l nin hid len xs i =
             lstm_layer bias w False l nin hid len' xs' i"
    by (intro ext) (simp add: lstm_layer_def del: lstm_run.simps)
qed

lemma lstm_layers_prefix:
  assumes "\<forall>i<t. xs i = xs' i"
  shows "\<forall>i<t. lstm_layers bias w False nin hid len nl xs i =
               lstm_layers bias w False nin hid len' nl xs' i"
proof (induction nl)
  case 0
  show ?case using assms by simp
next
  case (Suc l)
  show ?case unfolding lstm_layers.simps by (rule lstm_layer_prefix[OF Suc])
qed

text \<open>
  Claim C2, as amended: in a model constructed with \<open>causal = True\<close> the bottleneck does
  not look ahead. Its recurrent layer is unidirectional and its projection the identity,
  and on two encoder outputs that agree at every latent step before \<open>t\<close> it returns
  tensors that agree at every latent step before \<open>t\<close>.
\<close>

theorem bottleneck_causal:
  assumes "demucs_init accepts init cfg = Inr m" and "causal cfg"
    and "bottleneck m x = Inr y" and "bottleneck m x' = Inr y'"
    and "\<forall>n c i. i < t \<longrightarrow> entry x n c i = entry x' n c i"
  shows "\<forall>n c i. i < t \<longrightarrow> entry y n c i = entry y' n c i"
proof (intro allI impI)
  fix n c i assume i: "i < t"
  let ?ec = "encoder_channels cfg"
  let ?w = "lstm_initial init"
  from construct_Inr[OF assms(1)] assms(2) have
    r: "rnn m = Some (LSTM ?ec ?ec 2 False (use_bias cfg) ?w)" and
    l: "linear_proj m = Some Identity"
    by auto
  have y: "int (d1 x) = ?ec \<and>
      entry y n c i = lstm_layers (use_bias cfg) ?w False (d1 x) (nat ?ec) (d2 x) 2
                        (\<lambda>i k. entry x n k i) i c"
    using assms(3) by (auto simp: bottleneck_def r l lstm_def permute201_def permute120_def
        split: if_splits)
  have y': "int (d1 x') = ?ec \<and>
      entry y' n c i = lstm_layers (use_bias cfg) ?w False (d1 x') (nat ?ec) (d2 x') 2
                        (\<lambda>i k. entry x' n k i) i c"
    using assms(4) by (auto simp: bottleneck_def r l lstm_def permute201_def permute120_def
        split: if_splits)
  have d: "d1 x = d1 x'" using y y' by simp
  have "\<forall>i<t. (\<lambda>k. entry x n k i) = (\<lambda>k. entry x' n k i)" using assms(5) by simp
  then have "\<forall>i<t. lstm_layers (use_bias cfg) ?w False (d1 x) (nat ?ec) (d2 x) 2
                     (\<lambda>i k. entry x n k i) i =
                   lstm_layers (use_bias cfg) ?w False (d1 x) (nat ?ec) (d2 x') 2
                     (\<lambda>i k. entry x' n k i) i"
    by (rule lstm_layers_prefix)
  with i y y' d show "entry y n c i = entry y' n c i" by simp
qed

text \<open>
  The causal model of one level, on two encoder outputs of two latent steps that differ
  at the second step: the bottleneck returns on both, with the same first step.
\<close>

theorem bottleneck_causal_witness:
  "\<exists>m y y'. demucs_init accepts_positive sample_initial one_level_config = Inr m \<and>
     causal one_level_config \<and>
     bottleneck m (samples [1, 0]) = Inr y \<and> bottleneck m (samples [1, 1]) = Inr y' \<and>
     entry (samples [1, 0]) 0 0 1 \<noteq> entry (samples [1, 1]) 0 0 1 \<and>
     entry y 0 0 0 = entry y' 0 0 0"
proof -
  have "\<exists>m. demucs_init accepts_positive sample_initial one_level_config = Inr m \<and>
          (\<exists>y. bottleneck m (samples [1, 0]) = Inr y) \<and>
          (\<exists>y'. bottleneck m (samples [1, 1]) = Inr y')"
    by (simp add: demucs_init_def default_config_def one_level_config_def new_def
        accepts_positive_def build_encoder_block_def build_decoder_block_def
        encoder_channels_def py_int_def pow2_def Let_def upt1 opt_bias_def
        bottleneck_def lstm_def permute201_def samples_def)
  then obtain m y y' where
    m: "demucs_init accepts_positive sample_initial one_level_config = Inr m" and
    y: "bottleneck m (samples [1, 0]) = Inr y" and
    y': "bottleneck m (samples [1, 1]) = Inr y'"
    by (elim exE conjE)
  have c: "causal one_level_config" by (simp add: one_level_config_def default_config_def)
  have a: "\<forall>n c i. i < 1 \<longrightarrow> entry (samples [1, 0]) n c i = entry (samples [1, 1]) n c i"
    by (simp add: samples_def)
  from bottleneck_causal[OF m c y y' a] have e: "entry y 0 0 0 = entry y' 0 0 0" by simp
  have ne: "entry (samples [1, 0]) 0 0 1 \<noteq> entry (samples [1, 1]) 0 0 1"
    by (simp add: samples_def)
  from m c y y' ne e show ?thesis by (intro exI conjI)
qed

text \<open>
  Claim C2 as stated fails: \<open>forward\<close> as a whole looks ahead. In the causal model of one
  level with the synthetic weights, two signals of 8 samples that differ in the last
  sample only give outputs that differ in the first sample, 250 and 500: the window of
  the strided convolution (\<open>kernel_conv = 8\<close>) reads the 7 samples after its first one, and
  the transposed convolution writes the latent step to every sample of the output.
\<close>

theorem forward_looks_ahead:
  "map_sum id (\<lambda>y. entry y 0 0 0)
     (demucs_call accepts_positive synthetic_initial plain_resampler one_level_config
        (Axes3 (samples [1, 0, 0, 0, 0, 0, 0, 0]))) = Inr 250 \<and>
   map_sum id (\<lambda>y. entry y 0 0 0)
     (demucs_call accepts_positive synthetic_initial plain_resampler one_level_config
        (Axes3 (samples [1, 0, 0, 0, 0, 0, 0, 1]))) = Inr 500"
  by (simp add: value_evals eval_nat_numeral split del: if_split)


section \<open>Normalisation and the scale of the input\<close>






end
